theory Spec2Isabelle
  imports Main "HOL-Library.Word"
begin

section \<open>Values of the JavaScript platform\<close>

text \<open>
  An \<open>ArrayBuffer\<close> or \<open>Uint8Array\<close> holds bytes; a JavaScript string is a sequence of
  UTF-16 code units (\<open>length\<close> counts them, \<open>charCodeAt\<close> reads them). Numbers that the
  code computes with are integers far below \<open>2 ^ 53\<close>, so they are modelled as \<open>int\<close>
  with the conversions of the operators written out.
\<close>

type_synonym byte = "8 word"
type_synonym bytes = "byte list"
type_synonym js_string = "16 word list"

definition js :: "string \<Rightarrow> js_string" where
  "js s = map of_char s"

text \<open>\<open>ToInt32\<close>, applied by \<open><<\<close>, \<open>|\<close> and \<open>^\<close> to their operands and results.\<close>

definition to_int32 :: "int \<Rightarrow> int" where
  "to_int32 x = (x + 2 ^ 31) mod 2 ^ 32 - 2 ^ 31"

text \<open>\<open>a << n\<close> for \<open>n < 32\<close>.\<close>

definition js_shl :: "int \<Rightarrow> nat \<Rightarrow> int" where
  "js_shl a n = to_int32 (to_int32 a * 2 ^ n)"

text \<open>\<open>a | 0\<close>.\<close>

definition js_or0 :: "int \<Rightarrow> int" where
  "js_or0 a = to_int32 a"

text \<open>\<open>a % b\<close> on integers with \<open>b \<noteq> 0\<close>: the result has the sign of the dividend.\<close>

definition js_rem :: "int \<Rightarrow> int \<Rightarrow> int" where
  "js_rem a b = sgn a * (\<bar>a\<bar> mod \<bar>b\<bar>)"

text \<open>\<open>a ^ b\<close> on integers.\<close>

definition js_xor :: "int \<Rightarrow> int \<Rightarrow> int" where
  "js_xor a b = to_int32 (xor (to_int32 a) (to_int32 b))"

text \<open>Storing a number into an element of a \<open>Uint8Array\<close> keeps it modulo 256.\<close>

definition to_uint8 :: "int \<Rightarrow> byte" where
  "to_uint8 x = word_of_int x"

text \<open>
  \<open>secretBytes[j % secretBytes.length]\<close> as an operand of \<open>^\<close>. For an empty key the
  index is \<open>NaN\<close>, the element read is \<open>undefined\<close>, and \<open>^\<close> converts it to 0.
\<close>

definition key_byte :: "bytes \<Rightarrow> nat \<Rightarrow> int" where
  "key_byte k j = (if length k = 0 then 0 else uint (k ! (j mod length k)))"

subsection \<open>TextEncoder\<close>

text \<open>
  \<open>TextEncoder.encode\<close>: the string is first converted to scalar values (a surrogate
  pair is one scalar value, a lone surrogate becomes U+FFFD), then each is written in
  UTF-8.
\<close>

definition utf8_scalar :: "nat \<Rightarrow> bytes" where
  "utf8_scalar c =
     (if c < 0x80 then [of_nat c]
      else if c < 0x800 then [of_nat (0xC0 + c div 64), of_nat (0x80 + c mod 64)]
      else if c < 0x10000 then
        [of_nat (0xE0 + c div 4096), of_nat (0x80 + c div 64 mod 64), of_nat (0x80 + c mod 64)]
      else
        [of_nat (0xF0 + c div 262144), of_nat (0x80 + c div 4096 mod 64),
         of_nat (0x80 + c div 64 mod 64), of_nat (0x80 + c mod 64)])"

definition is_lead :: "16 word \<Rightarrow> bool" where
  "is_lead c = (0xD800 \<le> c \<and> c \<le> 0xDBFF)"

definition is_trail :: "16 word \<Rightarrow> bool" where
  "is_trail c = (0xDC00 \<le> c \<and> c \<le> 0xDFFF)"

fun TextEncoder_encode :: "js_string \<Rightarrow> bytes" where
  "TextEncoder_encode [] = []"
| "TextEncoder_encode [c] =
     (if is_lead c \<or> is_trail c then utf8_scalar 0xFFFD else utf8_scalar (unat c))"
| "TextEncoder_encode (c # d # cs) =
     (if is_lead c \<and> is_trail d then
        utf8_scalar (0x10000 + (unat c - 0xD800) * 0x400 + (unat d - 0xDC00))
          @ TextEncoder_encode cs
      else if is_lead c \<or> is_trail c then utf8_scalar 0xFFFD @ TextEncoder_encode (d # cs)
      else utf8_scalar (unat c) @ TextEncoder_encode (d # cs))"

section \<open>Errors\<close>

text \<open>
  The code throws \<open>Error\<close> objects that differ in their message only. They are modelled
  by the kind the message stands for:
  \<^item> \<open>InvalidInput\<close>: the hash is given a value that is not a string;
  \<^item> \<open>ConfigError\<close>: a secret without a method, or a method without a secret;
  \<^item> \<open>UnsupportedMethod\<close>: a method name that the registry does not have;
  \<^item> \<open>PackError\<close>: the serialization threw;
  \<^item> \<open>FormatVersionMismatch\<close>, \<open>MethodMismatch\<close>, \<open>InvalidLength\<close>: the three checks of
    \<open>unpack\<close>;
  \<^item> \<open>UnpackError\<close>: any other exception caught by \<open>unpack\<close>: a read outside the
    bounds of the \<open>DataView\<close> or a text that \<open>JSON.parse\<close> rejects.
\<close>

datatype js_exception = RangeError | SyntaxError

datatype error =
    InvalidInput
  | ConfigError
  | UnsupportedMethod
  | PackError
  | FormatVersionMismatch
  | MethodMismatch
  | InvalidLength
  | UnpackError js_exception

section \<open>Hash utility (Utils/Hash.js)\<close>

text \<open>An argument of \<open>Hash.secret\<close>: a string, or a value of any other type.\<close>

datatype js_value = JSString js_string | JSOther

text \<open>The loop body: \<open>hash = ((hash << 5) - hash) + secret.charCodeAt(i); hash |= 0\<close>.\<close>

definition hash_step :: "int \<Rightarrow> 16 word \<Rightarrow> int" where
  "hash_step h c = js_or0 ((js_shl h 5 - h) + uint c)"

fun hash_loop :: "int \<Rightarrow> js_string \<Rightarrow> int" where
  "hash_loop h [] = h"
| "hash_loop h (c # cs) = hash_loop (hash_step h c) cs"

text \<open>\<open>Hash.secret\<close> on a string: the early return for the empty one, the loop, \<open>Math.abs\<close>.\<close>

definition hash_string :: "js_string \<Rightarrow> int" where
  "hash_string s = (if length s = 0 then 0 else \<bar>hash_loop 0 s\<bar>)"

definition Hash_secret :: "js_value \<Rightarrow> error + int" where
  "Hash_secret v = (case v of JSOther \<Rightarrow> Inl InvalidInput | JSString s \<Rightarrow> Inr (hash_string s))"

text \<open>
  The characters of a string as its iterator and \<open>codePointAt\<close> give them: a lead
  surrogate followed by a trail surrogate is one character, whose code point lies above
  \<open>0xFFFF\<close>; any other code unit is a character of its own.
\<close>

fun code_points :: "js_string \<Rightarrow> nat list" where
  "code_points [] = []"
| "code_points [c] = [unat c]"
| "code_points (c # d # cs) =
     (if is_lead c \<and> is_trail d then
        (0x10000 + (unat c - 0xD800) * 0x400 + (unat d - 0xDC00)) # code_points cs
      else unat c # code_points (d # cs))"

text \<open>
  The hash as the specification words it: the accumulator is a 32-bit value that wraps,
  \<open>h = h * 31 + codePoint\<close> for each character in order, and the result is the magnitude
  of the final accumulator read as a signed number.
\<close>

definition hash_spec :: "js_string \<Rightarrow> int" where
  "hash_spec s = \<bar>sint (foldl (\<lambda>h c. h * 31 + of_nat c) (0 :: 32 word) (code_points s))\<bar>"

text \<open>The same accumulator over the UTF-16 code units of the string.\<close>

definition hash_code_units :: "js_string \<Rightarrow> int" where
  "hash_code_units s = \<bar>sint (foldl (\<lambda>h c. h * 31 + ucast c) (0 :: 32 word) s)\<bar>"

section \<open>Transform strategies (EncryptionMethod/Methods)\<close>

text \<open>
  Every strategy loops over the indices of the slice it is given and replaces the byte
  at \<open>i\<close> by a function of \<open>i\<close> and of that byte:
  \<open>for (let i = 0; i < dataPart.length; i++) dataPart[i] = body(i, dataPart[i])\<close>.
\<close>

function for_up :: "(nat \<Rightarrow> byte \<Rightarrow> byte) \<Rightarrow> nat \<Rightarrow> bytes \<Rightarrow> bytes" where
  "for_up body i d =
     (if i < length d then for_up body (Suc i) (d[i := body i (d ! i)]) else d)"
  by pat_completeness auto
termination
  by (relation "measure (\<lambda>(body, i, d). length d - i)") auto

declare for_up.simps [simp del]

text \<open>
  \<open>for (let i = dataPart.length - 1; i >= 0; i--) dataPart[i] = body(i, dataPart[i])\<close>:
  the counter of the model is \<open>i + 1\<close>, and the loop ends when it is 0.
\<close>

primrec for_down :: "(nat \<Rightarrow> byte \<Rightarrow> byte) \<Rightarrow> nat \<Rightarrow> bytes \<Rightarrow> bytes" where
  "for_down body 0 d = d"
| "for_down body (Suc i) d = for_down body i (d[i := body i (d ! i)])"

subsection \<open>XOR.js\<close>

definition XOR_encrypt :: "js_string \<Rightarrow> bytes \<Rightarrow> bytes" where
  "XOR_encrypt secret dataPart =
     (let secretBytes = TextEncoder_encode secret
      in for_up (\<lambda>i x. to_uint8 (js_xor (uint x) (key_byte secretBytes i))) 0 dataPart)"

definition XOR_decrypt :: "js_string \<Rightarrow> bytes \<Rightarrow> bytes" where
  "XOR_decrypt secret dataPart = XOR_encrypt secret dataPart"

subsection \<open>Caesar.js\<close>

text \<open>The secret of a strategy is a string, so the type check of \<open>Hash.secret\<close> passes.\<close>

definition Caesar_shift :: "js_string \<Rightarrow> int" where
  "Caesar_shift secret = js_rem (hash_string secret) 26"

definition Caesar_encrypt :: "js_string \<Rightarrow> bytes \<Rightarrow> bytes" where
  "Caesar_encrypt secret dataPart =
     (let shift = Caesar_shift secret
      in for_up (\<lambda>i x. to_uint8 (js_rem (uint x + shift) 256)) 0 dataPart)"

definition Caesar_decrypt :: "js_string \<Rightarrow> bytes \<Rightarrow> bytes" where
  "Caesar_decrypt secret dataPart =
     (let shift = Caesar_shift secret
      in for_up (\<lambda>i x. to_uint8 (js_rem (uint x - shift + 256) 256)) 0 dataPart)"

subsection \<open>AES.js\<close>

text \<open>One round of \<open>encrypt\<close> and of \<open>decrypt\<close>: the inner loop over the indices.\<close>

definition AES_encrypt_round :: "bytes \<Rightarrow> nat \<Rightarrow> bytes \<Rightarrow> bytes" where
  "AES_encrypt_round secretBytes round dataPart =
     for_up (\<lambda>i x. to_uint8 (js_rem
         (js_xor (uint x) (key_byte secretBytes (i + round)) + int round + int i) 256))
       0 dataPart"

definition AES_decrypt_round :: "bytes \<Rightarrow> nat \<Rightarrow> bytes \<Rightarrow> bytes" where
  "AES_decrypt_round secretBytes round dataPart =
     for_down (\<lambda>i x. to_uint8 (js_xor
         (js_rem (uint x - int round - int i + 256) 256) (key_byte secretBytes (i + round))))
       (length dataPart) dataPart"

text \<open>\<open>for (let round = 0; round < rounds; round++)\<close> with \<open>rounds = 3\<close>.\<close>

function AES_encrypt_rounds :: "bytes \<Rightarrow> nat \<Rightarrow> bytes \<Rightarrow> bytes" where
  "AES_encrypt_rounds secretBytes round d =
     (if round < 3 then AES_encrypt_rounds secretBytes (Suc round)
                          (AES_encrypt_round secretBytes round d)
      else d)"
  by pat_completeness auto
termination
  by (relation "measure (\<lambda>(k, round, d). 3 - round)") auto

declare AES_encrypt_rounds.simps [simp del]

text \<open>
  \<open>for (let round = rounds - 1; round >= 0; round--)\<close>: the counter of the model is
  \<open>round + 1\<close>.
\<close>

primrec AES_decrypt_rounds :: "bytes \<Rightarrow> nat \<Rightarrow> bytes \<Rightarrow> bytes" where
  "AES_decrypt_rounds secretBytes 0 d = d"
| "AES_decrypt_rounds secretBytes (Suc round) d =
     AES_decrypt_rounds secretBytes round (AES_decrypt_round secretBytes round d)"

definition AES_encrypt :: "js_string \<Rightarrow> bytes \<Rightarrow> bytes" where
  "AES_encrypt secret dataPart = AES_encrypt_rounds (TextEncoder_encode secret) 0 dataPart"

definition AES_decrypt :: "js_string \<Rightarrow> bytes \<Rightarrow> bytes" where
  "AES_decrypt secret dataPart = AES_decrypt_rounds (TextEncoder_encode secret) 3 dataPart"

section \<open>Transform registry (EncryptionMethod/Methods/index.js)\<close>

datatype strategy = XOR | AES | Caesar

record method_entry =
  code :: nat
  name :: js_string
  instance' :: strategy

definition AvailableMethods :: "method_entry list" where
  "AvailableMethods =
     [\<lparr>code = 1, name = js ''xor'', instance' = XOR\<rparr>,
      \<lparr>code = 2, name = js ''aes-like'', instance' = AES\<rparr>,
      \<lparr>code = 3, name = js ''caesar'', instance' = Caesar\<rparr>]"

text \<open>\<open>new instance(secret)\<close> followed by \<open>encrypt(dataPart)\<close> or \<open>decrypt(dataPart)\<close>.\<close>

fun strategy_encrypt :: "strategy \<Rightarrow> js_string \<Rightarrow> bytes \<Rightarrow> bytes" where
  "strategy_encrypt XOR s d = XOR_encrypt s d"
| "strategy_encrypt AES s d = AES_encrypt s d"
| "strategy_encrypt Caesar s d = Caesar_encrypt s d"

fun strategy_decrypt :: "strategy \<Rightarrow> js_string \<Rightarrow> bytes \<Rightarrow> bytes" where
  "strategy_decrypt XOR s d = XOR_decrypt s d"
| "strategy_decrypt AES s d = AES_decrypt s d"
| "strategy_decrypt Caesar s d = Caesar_decrypt s d"

section \<open>Buffers in a store\<close>

text \<open>
  An \<open>ArrayBuffer\<close> is an object that several views share and that the transforms
  change in place. The store holds the contents of every buffer allocated so far; a
  reference is the position of the buffer in the store.
\<close>

type_synonym ref = nat
type_synonym heap = "bytes list"

text \<open>\<open>new ArrayBuffer(n)\<close>: a fresh buffer of \<open>n\<close> zero bytes.\<close>

definition ArrayBuffer_new :: "heap \<Rightarrow> nat \<Rightarrow> heap \<times> ref" where
  "ArrayBuffer_new h n = (h @ [replicate n 0], length h)"

text \<open>\<open>buffer.slice(0)\<close>: a fresh buffer with the same contents.\<close>

definition ArrayBuffer_slice0 :: "heap \<Rightarrow> ref \<Rightarrow> heap \<times> ref" where
  "ArrayBuffer_slice0 h buffer = (h @ [h ! buffer], length h)"

text \<open>
  The writes of \<open>pack\<close> through a \<open>DataView\<close> and a \<open>Uint8Array\<close> on the buffer. They are
  inside the buffer there, which \<open>pack\<close> allocates with the 6 bytes of the header and
  the length of the payload. \<open>setUint32\<close> keeps the value modulo \<open>2 ^ 32\<close> and writes
  it with the most significant byte first.
\<close>

definition setUint8 :: "heap \<Rightarrow> ref \<Rightarrow> nat \<Rightarrow> nat \<Rightarrow> heap" where
  "setUint8 h buffer off v = h[buffer := (h ! buffer)[off := of_nat v]]"

definition setUint32 :: "heap \<Rightarrow> ref \<Rightarrow> nat \<Rightarrow> nat \<Rightarrow> heap" where
  "setUint32 h buffer off v =
     h[buffer := (h ! buffer)
        [off := of_nat (v div 2 ^ 24), off + 1 := of_nat (v div 2 ^ 16),
         off + 2 := of_nat (v div 2 ^ 8), off + 3 := of_nat v]]"

definition Uint8Array_set :: "heap \<Rightarrow> ref \<Rightarrow> nat \<Rightarrow> bytes \<Rightarrow> heap" where
  "Uint8Array_set h buffer off src =
     h[buffer := take off (h ! buffer) @ src @ drop (off + length src) (h ! buffer)]"

text \<open>The reads of \<open>unpack\<close> through a \<open>DataView\<close>: outside the buffer they throw.\<close>

definition getUint8 :: "bytes \<Rightarrow> nat \<Rightarrow> js_exception + nat" where
  "getUint8 b off = (if off + 1 \<le> length b then Inr (unat (b ! off)) else Inl RangeError)"

definition getUint32 :: "bytes \<Rightarrow> nat \<Rightarrow> js_exception + nat" where
  "getUint32 b off =
     (if off + 4 \<le> length b then
        Inr (unat (b ! off) * 2 ^ 24 + unat (b ! (off + 1)) * 2 ^ 16
             + unat (b ! (off + 2)) * 2 ^ 8 + unat (b ! (off + 3)))
      else Inl RangeError)"

section \<open>Transform dispatcher (EncryptionMethod/EncryptionMethod.js)\<close>

text \<open>
  \<open>encrypt\<close> and \<open>decrypt\<close> change, in the store, the bytes of the buffer from
  \<open>metaLength\<close> on (\<open>view.subarray(metaLength)\<close>; for a shorter buffer the slice is
  empty). A name or a code that the registry does not have leaves the buffer as it is.
\<close>

definition EncryptionMethod_encrypt ::
    "js_string \<Rightarrow> nat \<Rightarrow> heap \<Rightarrow> ref \<Rightarrow> js_string option \<Rightarrow> heap" where
  "EncryptionMethod_encrypt secret metaLength h buffer method =
     (case find (\<lambda>e. Some (name e) = method) AvailableMethods of
        None \<Rightarrow> h
      | Some existMethod \<Rightarrow>
          h[buffer := take metaLength (h ! buffer)
             @ strategy_encrypt (instance' existMethod) secret (drop metaLength (h ! buffer))])"

definition EncryptionMethod_decrypt ::
    "js_string \<Rightarrow> nat \<Rightarrow> heap \<Rightarrow> ref \<Rightarrow> nat \<Rightarrow> heap" where
  "EncryptionMethod_decrypt secret metaLength h buffer methodCode =
     (case find (\<lambda>e. code e = methodCode) AvailableMethods of
        None \<Rightarrow> h
      | Some existMethod \<Rightarrow>
          h[buffer := take metaLength (h ! buffer)
             @ strategy_decrypt (instance' existMethod) secret (drop metaLength (h ! buffer))])"

definition getEncryptionMethodCode :: "js_string option \<Rightarrow> nat" where
  "getEncryptionMethodCode method =
     (case find (\<lambda>e. Some (name e) = method) AvailableMethods of
        None \<Rightarrow> 0
      | Some existMethod \<Rightarrow> code existMethod)"

definition getEncryptionMethodName :: "nat \<Rightarrow> js_string option" where
  "getEncryptionMethodName methodCode =
     (case find (\<lambda>e. code e = methodCode) AvailableMethods of
        None \<Rightarrow> None
      | Some existMethod \<Rightarrow> Some (name existMethod))"

section \<open>Envelope codec (binary-pack.js)\<close>

text \<open>
  What the codec asks of the platform for a value of type \<open>'v\<close>: \<open>JSON.stringify\<close>
  (which throws, returns \<open>undefined\<close> or returns a text), \<open>TextDecoder.decode\<close> and
  \<open>JSON.parse\<close> (\<open>None\<close> when it throws).
\<close>

datatype stringify_result = Throws | Undefined | Text js_string

record 'v platform =
  JSON_stringify :: "'v \<Rightarrow> stringify_result"
  TextDecoder_decode :: "bytes \<Rightarrow> js_string"
  JSON_parse :: "js_string \<Rightarrow> 'v option"

text \<open>The fields of a packer that the operations read: both are a string or \<open>null\<close>.\<close>

record BinaryPack =
  secret :: "js_string option"
  encryptionMethod :: "js_string option"

abbreviation (input) VERSION :: nat where "VERSION \<equiv> 1"
abbreviation (input) OFFSET_VERSION :: nat where "OFFSET_VERSION \<equiv> 0"
abbreviation (input) OFFSET_METHOD_CODE :: nat where "OFFSET_METHOD_CODE \<equiv> 1"
abbreviation (input) OFFSET_DATA_LENGTH :: nat where "OFFSET_DATA_LENGTH \<equiv> 2"
abbreviation (input) OFFSET_DATA :: nat where "OFFSET_DATA \<equiv> 6"
abbreviation (input) META_LENGTH :: nat where "META_LENGTH \<equiv> 6"

text \<open>A string or \<open>null\<close> used as a condition: \<open>null\<close> and the empty string are false.\<close>

definition truthy :: "js_string option \<Rightarrow> bool" where
  "truthy x = (case x of None \<Rightarrow> False | Some s \<Rightarrow> length s \<noteq> 0)"

text \<open>The constructor: its three checks in order, then the packer.\<close>

definition BinaryPack_new :: "js_string option \<Rightarrow> js_string option \<Rightarrow> error + BinaryPack" where
  "BinaryPack_new s m =
     (let validMethodsName = map name AvailableMethods
      in if truthy s \<and> \<not> truthy m then Inl ConfigError
         else if truthy m \<and> \<not> truthy s then Inl ConfigError
         else if truthy m \<and> \<not> (case m of None \<Rightarrow> False | Some n \<Rightarrow> n \<in> set validMethodsName)
           then Inl UnsupportedMethod
         else Inr \<lparr>secret = s, encryptionMethod = m\<rparr>)"

text \<open>
  \<open>this.secret && this.encryptionMethod\<close>: when it holds, both are non-empty strings.
\<close>

definition configured :: "BinaryPack \<Rightarrow> (js_string \<times> js_string) option" where
  "configured p =
     (if truthy (secret p) \<and> truthy (encryptionMethod p) then
        (case (secret p, encryptionMethod p) of
           (Some s, Some m) \<Rightarrow> Some (s, m)
         | _ \<Rightarrow> None)
      else None)"

text \<open>
  \<open>encoder.encode(JSON.stringify(data))\<close>: \<open>encode\<close> of \<open>undefined\<close> is \<open>encode\<close> of the
  empty string.
\<close>

definition encode_stringified :: "stringify_result \<Rightarrow> bytes option" where
  "encode_stringified r =
     (case r of Throws \<Rightarrow> None | Undefined \<Rightarrow> Some (TextEncoder_encode [])
      | Text t \<Rightarrow> Some (TextEncoder_encode t))"

definition pack :: "'v platform \<Rightarrow> BinaryPack \<Rightarrow> 'v \<Rightarrow> heap \<Rightarrow> heap \<times> (error + ref)" where
  "pack P p data h =
     (case encode_stringified (JSON_stringify P data) of
        None \<Rightarrow> (h, Inl PackError)
      | Some stringBytes \<Rightarrow>
          (let (h1, buffer) = ArrayBuffer_new h (length stringBytes + META_LENGTH);
               h2 = setUint8 h1 buffer OFFSET_VERSION VERSION;
               methodCode = getEncryptionMethodCode (encryptionMethod p);
               h3 = setUint8 h2 buffer OFFSET_METHOD_CODE methodCode;
               h4 = setUint32 h3 buffer OFFSET_DATA_LENGTH (length stringBytes);
               h5 = Uint8Array_set h4 buffer OFFSET_DATA stringBytes
           in case configured p of
                Some (s, m) \<Rightarrow> (EncryptionMethod_encrypt s META_LENGTH h5 buffer (Some m), Inr buffer)
              | None \<Rightarrow> (h5, Inr buffer)))"

text \<open>
  The method check of \<open>unpack\<close> and the decryption in place that follows it, for a
  packer with a secret and a method; nothing for another packer.
\<close>

definition check_method :: "BinaryPack \<Rightarrow> heap \<Rightarrow> ref \<Rightarrow> nat \<Rightarrow> error + heap" where
  "check_method p h bufferCopy methodCode =
     (case configured p of
        None \<Rightarrow> Inr h
      | Some (s, m) \<Rightarrow>
          (let storedMethod = getEncryptionMethodName methodCode
           in if Some m \<noteq> storedMethod then Inl MethodMismatch
              else Inr (EncryptionMethod_decrypt s META_LENGTH h bufferCopy methodCode)))"

text \<open>The length check, the slice of the payload, the decoding and the parsing.\<close>

definition read_payload :: "'v platform \<Rightarrow> bytes \<Rightarrow> error + 'v" where
  "read_payload P b =
     (case getUint32 b OFFSET_DATA_LENGTH of
        Inl e \<Rightarrow> Inl (UnpackError e)
      | Inr dataLength \<Rightarrow>
          if dataLength > length b - META_LENGTH then Inl InvalidLength
          else (let stringBytes = take dataLength (drop OFFSET_DATA b);
                    jsonString = TextDecoder_decode P stringBytes
                in case JSON_parse P jsonString of
                     None \<Rightarrow> Inl (UnpackError SyntaxError)
                   | Some v \<Rightarrow> Inr v))"

definition unpack :: "'v platform \<Rightarrow> BinaryPack \<Rightarrow> heap \<Rightarrow> ref \<Rightarrow> heap \<times> (error + 'v)" where
  "unpack P p h buffer =
     (let (h1, bufferCopy) = ArrayBuffer_slice0 h buffer
      in case getUint8 (h1 ! bufferCopy) OFFSET_VERSION of
           Inl e \<Rightarrow> (h1, Inl (UnpackError e))
         | Inr version \<Rightarrow>
             if version \<noteq> VERSION then (h1, Inl FormatVersionMismatch)
             else (case getUint8 (h1 ! bufferCopy) OFFSET_METHOD_CODE of
                     Inl e \<Rightarrow> (h1, Inl (UnpackError e))
                   | Inr methodCode \<Rightarrow>
                       (case check_method p h1 bufferCopy methodCode of
                          Inl e \<Rightarrow> (h1, Inl e)
                        | Inr h2 \<Rightarrow> (h2, read_payload P (h2 ! bufferCopy)))))"

text \<open>
  The platform restricted to the two values \<open>true\<close> and \<open>false\<close>, whose texts are ASCII:
  enough of it to run the codec on concrete inputs.
\<close>

definition boolean_platform :: "bool platform" where
  "boolean_platform =
     \<lparr>JSON_stringify = (\<lambda>v. Text (js (if v then ''true'' else ''false''))),
      TextDecoder_decode = map ucast,
      JSON_parse = (\<lambda>t. if t = js ''true'' then Some True
                         else if t = js ''false'' then Some False else None)\<rparr>"

section \<open>Notions used in the proofs\<close>

text \<open>What both loops compute: the byte at every index replaced by the body's result.\<close>

definition imap :: "(nat \<Rightarrow> byte \<Rightarrow> byte) \<Rightarrow> bytes \<Rightarrow> bytes" where
  "imap body d = map (\<lambda>i. body i (d ! i)) [0..<length d]"

text \<open>
  The six bytes that \<open>pack\<close> writes for a method code and a payload length, and what the
  dispatcher's \<open>encrypt\<close> and \<open>decrypt\<close> make of the contents of a buffer.
\<close>

definition header :: "nat \<Rightarrow> nat \<Rightarrow> bytes" where
  "header c n = [1, of_nat c, of_nat (n div 2 ^ 24), of_nat (n div 2 ^ 16),
                 of_nat (n div 2 ^ 8), of_nat n]"

definition encrypt_bytes :: "js_string \<Rightarrow> js_string option \<Rightarrow> bytes \<Rightarrow> bytes" where
  "encrypt_bytes s m b =
     (case find (\<lambda>e. Some (name e) = m) AvailableMethods of
        None \<Rightarrow> b
      | Some e \<Rightarrow> take 6 b @ strategy_encrypt (instance' e) s (drop 6 b))"

definition decrypt_bytes :: "js_string \<Rightarrow> nat \<Rightarrow> bytes \<Rightarrow> bytes" where
  "decrypt_bytes s c b =
     (case find (\<lambda>e. code e = c) AvailableMethods of
        None \<Rightarrow> b
      | Some e \<Rightarrow> take 6 b @ strategy_decrypt (instance' e) s (drop 6 b))"

section \<open>Properties of the loops\<close>

lemma for_up_length [simp]: "length (for_up body i d) = length d"
proof (induction body i d rule: for_up.induct)
  case (1 body i d)
  then show ?case by (subst for_up.simps) simp
qed

lemma for_up_nth:
  "j < length d \<Longrightarrow> for_up body i d ! j = (if i \<le> j then body j (d ! j) else d ! j)"
proof (induction body i d rule: for_up.induct)
  case (1 body i d)
  show ?case
  proof (cases "i < length d")
    case True
    have "for_up body i d ! j = for_up body (Suc i) (d[i := body i (d ! i)]) ! j"
      using True by (subst for_up.simps) simp
    also have "\<dots> = (if Suc i \<le> j then body j (d[i := body i (d ! i)] ! j)
                      else d[i := body i (d ! i)] ! j)"
      using 1 True by simp
    also have "\<dots> = (if i \<le> j then body j (d ! j) else d ! j)"
      using True "1.prems" by (cases "j = i") auto
    finally show ?thesis .
  next
    case False
    with 1 show ?thesis
      by (subst for_up.simps) simp
  qed
qed

lemma for_down_length [simp]: "length (for_down body n d) = length d"
  by (induction n arbitrary: d) simp_all

lemma for_down_nth:
  "j < length d \<Longrightarrow> for_down body n d ! j = (if j < n then body j (d ! j) else d ! j)"
  by (induction n arbitrary: d) (auto simp: nth_list_update less_Suc_eq)

lemma imap_length [simp]: "length (imap body d) = length d"
  by (simp add: imap_def)

lemma imap_nth [simp]: "i < length d \<Longrightarrow> imap body d ! i = body i (d ! i)"
  by (simp add: imap_def)

lemma imap_Nil [simp]: "imap body [] = []"
  by (simp add: imap_def)

lemma for_up_imap: "for_up body 0 d = imap body d"
  by (rule nth_equalityI) (simp_all add: for_up_nth)

lemma for_down_imap: "for_down body (length d) d = imap body d"
  by (rule nth_equalityI) (simp_all add: for_down_nth)

lemma imap_imap: "imap f (imap g d) = imap (\<lambda>i x. f i (g i x)) d"
  by (rule nth_equalityI) simp_all

lemma imap_ident: "(\<And>i x. f i x = x) \<Longrightarrow> imap f d = d"
  by (rule nth_equalityI) simp_all

lemma imap_take: "take n (imap f d) = imap f (take n d)"
  by (rule nth_equalityI) simp_all

section \<open>Properties of the conversions\<close>

lemma to_int32_sint: "to_int32 x = sint (word_of_int x :: 32 word)"
  by (simp add: to_int32_def int_word_sint)

lemma to_uint8_cong: "a mod 256 = b mod 256 \<Longrightarrow> to_uint8 a = to_uint8 b"
  unfolding to_uint8_def by (simp add: word_of_int_eq_iff take_bit_eq_mod)

lemma to_uint8_to_int32: "to_uint8 (to_int32 x) = to_uint8 x"
proof -
  have "(256::int) dvd 2 ^ 32" by simp
  then have "((x + 2 ^ 31) mod 2 ^ 32 - 2 ^ 31) mod 256 = x mod 256"
    by (metis add_diff_cancel_right' mod_diff_left_eq mod_mod_cancel)
  then show ?thesis
    unfolding to_int32_def by (rule to_uint8_cong)
qed

lemma to_uint8_js_rem: "to_uint8 (js_rem a 256) = to_uint8 a"
proof (rule to_uint8_cong)
  show "js_rem a 256 mod 256 = a mod 256"
  proof (cases "0 \<le> a")
    case True
    then show ?thesis
      by (cases "a = 0") (simp_all add: js_rem_def)
  next
    case False
    have "(- ((- a) mod 256)) mod 256 = a mod 256"
      by (metis mod_minus_eq minus_minus)
    with False show ?thesis
      by (simp add: js_rem_def)
  qed
qed

lemma to_uint8_js_xor: "to_uint8 (js_xor a b) = xor (to_uint8 a) (to_uint8 b)"
proof -
  have "to_uint8 (js_xor a b) = to_uint8 (xor (to_int32 a) (to_int32 b))"
    by (simp add: js_xor_def to_uint8_to_int32)
  also have "\<dots> = xor (to_uint8 (to_int32 a)) (to_uint8 (to_int32 b))"
    by (simp add: to_uint8_def of_int_xor_eq)
  finally show ?thesis by (simp add: to_uint8_to_int32)
qed

lemma to_uint8_add: "to_uint8 (a + b) = to_uint8 a + to_uint8 b"
  by (simp add: to_uint8_def)

lemma to_uint8_diff: "to_uint8 (a - b) = to_uint8 a - to_uint8 b"
  by (simp add: to_uint8_def)

lemma to_uint8_uint [simp]: "to_uint8 (uint x) = x"
  by (simp add: to_uint8_def)

lemma to_uint8_256 [simp]: "to_uint8 256 = 0"
  by (simp add: to_uint8_def)

lemma js_rem_nonneg: "0 \<le> a \<Longrightarrow> 0 < b \<Longrightarrow> js_rem a b = a mod b"
  by (cases "a = 0") (simp_all add: js_rem_def)

section \<open>The hash\<close>

lemma hash_step_word:
  "hash_step (sint (w :: 32 word)) c = sint (w * 31 + ucast c)"
proof -
  have "(word_of_int (sint (word_of_int (sint w * 32) :: 32 word) - sint w + uint c) :: 32 word)
        = w * 32 - w + ucast c"
    by (simp add: word_of_int_uint)
  then show ?thesis
    by (simp add: hash_step_def js_or0_def js_shl_def to_int32_sint mult.commute)
qed

lemma hash_loop_word:
  "hash_loop (sint (w :: 32 word)) s = sint (foldl (\<lambda>h c. h * 31 + ucast c) w s)"
  by (induction s arbitrary: w) (simp_all add: hash_step_word)

lemma hash_string_code_units: "hash_string s = hash_code_units s"
  using hash_loop_word [of 0 s] by (cases s) (simp_all add: hash_string_def hash_code_units_def)

lemma abs_sint32_bound: "\<bar>sint (w :: 32 word)\<bar> \<le> 2 ^ 31"
  using sint_ge [of w] sint_lt [of w] by simp

lemma hash_string_nonneg: "0 \<le> hash_string s"
  by (simp add: hash_string_def)

lemma hash_string_secret: "hash_string (js ''secret'') = 906277200"
  by (simp add: hash_string_def js_def hash_step_def js_or0_def js_shl_def to_int32_def)

lemma hash_loop_secret: "hash_loop 0 (js ''secret'') = - 906277200"
  by (simp add: js_def hash_step_def js_or0_def js_shl_def to_int32_def)

lemma code_points_no_lead:
  "\<forall>c \<in> set s. \<not> is_lead c \<Longrightarrow> code_points s = map unat s"
  by (induction s rule: code_points.induct) simp_all

lemma hash_spec_no_lead:
  assumes "\<forall>c \<in> set s. \<not> is_lead c"
  shows "hash_spec s = hash_code_units s"
proof -
  have "foldl (\<lambda>h c. h * 31 + of_nat c) w (map unat s)
        = foldl (\<lambda>h c. h * 31 + ucast c) (w :: 32 word) s" for w
    by (induction s arbitrary: w) simp_all
  then show ?thesis
    using code_points_no_lead [OF assms] by (simp add: hash_spec_def hash_code_units_def)
qed

text \<open>
  C5, as the code has it. \<open>Hash.secret\<close> is a function of its argument alone. On a string
  the accumulator starts at 0 and takes \<open>h * 31 + code unit\<close> for each UTF-16 code unit
  of the string in order (\<open>length\<close> counts code units and \<open>charCodeAt\<close> reads them), in
  32-bit arithmetic that wraps; the result is the magnitude of the final accumulator read
  as a signed number, from 0 to \<open>2 ^ 32 - 1\<close>. The empty string gives 0, and a value that
  is not a string fails with \<open>InvalidInput\<close>.
\<close>

theorem Hash_secret_contract:
  "Hash_secret (JSString s) = Inr (hash_code_units s)
   \<and> 0 \<le> hash_code_units s \<and> hash_code_units s < 2 ^ 32
   \<and> Hash_secret (JSString []) = Inr 0
   \<and> Hash_secret JSOther = Inl InvalidInput"
proof -
  have "hash_code_units s \<le> 2 ^ 31"
    unfolding hash_code_units_def by (rule abs_sint32_bound)
  then have "hash_code_units s < 2 ^ 32" by simp
  moreover have "0 \<le> hash_code_units s" by (simp add: hash_code_units_def)
  moreover have "Hash_secret (JSString s) = Inr (hash_code_units s)"
    by (simp add: Hash_secret_def hash_string_code_units)
  moreover have "Hash_secret (JSString []) = Inr 0"
    by (simp add: Hash_secret_def hash_string_def)
  moreover have "Hash_secret JSOther = Inl InvalidInput"
    by (simp add: Hash_secret_def)
  ultimately show ?thesis by simp
qed

text \<open>
  C5, as the specification words it, fails on a character outside the Basic Multilingual
  Plane. The string of the one character U+1F600 has the code units \<open>0xD83D\<close> and
  \<open>0xDE00\<close>: the code returns \<open>55357 * 31 + 56832 = 1772899\<close>, and the accumulator over
  code points gives \<open>128512\<close>.
\<close>

theorem Hash_secret_code_point_counterexample:
  "Hash_secret (JSString [0xD83D, 0xDE00]) = Inr 1772899
   \<and> code_points [0xD83D, 0xDE00] = [0x1F600]
   \<and> hash_spec [0xD83D, 0xDE00] = 128512
   \<and> Hash_secret (JSString [0xD83D, 0xDE00]) \<noteq> Inr (hash_spec [0xD83D, 0xDE00])"
proof -
  have code: "Hash_secret (JSString [0xD83D, 0xDE00]) = Inr 1772899"
    by (simp add: Hash_secret_def hash_string_def hash_step_def js_or0_def js_shl_def
        to_int32_def)
  have cp: "code_points [0xD83D, 0xDE00] = [0x1F600]"
    by (simp add: is_lead_def is_trail_def)
  have spec: "hash_spec [0xD83D, 0xDE00] = 128512"
    by (simp add: hash_spec_def is_lead_def is_trail_def)
  from code cp spec show ?thesis by simp
qed

section \<open>The strategies\<close>

lemma XOR_encrypt_imap:
  "XOR_encrypt s d = imap (\<lambda>i x. xor x (to_uint8 (key_byte (TextEncoder_encode s) i))) d"
  by (simp add: XOR_encrypt_def for_up_imap to_uint8_js_xor)

lemma Caesar_shift_mod: "Caesar_shift s = hash_string s mod 26"
  by (simp add: Caesar_shift_def js_rem_nonneg hash_string_nonneg)

lemma Caesar_encrypt_imap:
  "Caesar_encrypt s d = imap (\<lambda>i x. x + to_uint8 (Caesar_shift s)) d"
  by (simp add: Caesar_encrypt_def for_up_imap to_uint8_js_rem to_uint8_add)

lemma Caesar_decrypt_imap:
  "Caesar_decrypt s d = imap (\<lambda>i x. x - to_uint8 (Caesar_shift s)) d"
  by (simp add: Caesar_decrypt_def for_up_imap to_uint8_js_rem to_uint8_add to_uint8_diff)

lemma AES_encrypt_round_imap:
  "AES_encrypt_round k r d =
     imap (\<lambda>i x. xor x (to_uint8 (key_byte k (i + r))) + to_uint8 (int r) + to_uint8 (int i)) d"
  by (simp add: AES_encrypt_round_def for_up_imap to_uint8_js_rem to_uint8_add to_uint8_js_xor)

lemma AES_decrypt_round_imap:
  "AES_decrypt_round k r d =
     imap (\<lambda>i x. xor (x - to_uint8 (int r) - to_uint8 (int i)) (to_uint8 (key_byte k (i + r)))) d"
  by (simp add: AES_decrypt_round_def for_down_imap to_uint8_js_rem to_uint8_add to_uint8_diff
      to_uint8_js_xor)

lemma AES_round_inverse: "AES_decrypt_round k r (AES_encrypt_round k r d) = d"
  by (simp add: AES_encrypt_round_imap AES_decrypt_round_imap imap_imap imap_ident xor.assoc)

lemma AES_encrypt_rounds_unfold:
  "AES_encrypt_rounds k 0 d =
     AES_encrypt_round k 2 (AES_encrypt_round k 1 (AES_encrypt_round k 0 d))"
  by (simp add: AES_encrypt_rounds.simps numeral_2_eq_2)

lemma AES_decrypt_rounds_unfold:
  "AES_decrypt_rounds k 3 d =
     AES_decrypt_round k 0 (AES_decrypt_round k 1 (AES_decrypt_round k 2 d))"
  by (simp add: numeral_3_eq_3 numeral_2_eq_2)

lemma XOR_inverse: "XOR_decrypt s (XOR_encrypt s d) = d"
  by (simp add: XOR_decrypt_def XOR_encrypt_imap imap_imap imap_ident xor.assoc)

lemma Caesar_inverse: "Caesar_decrypt s (Caesar_encrypt s d) = d"
  by (simp add: Caesar_encrypt_imap Caesar_decrypt_imap imap_imap imap_ident)

lemma AES_inverse: "AES_decrypt s (AES_encrypt s d) = d"
  by (simp add: AES_encrypt_def AES_decrypt_def AES_encrypt_rounds_unfold
      AES_decrypt_rounds_unfold AES_round_inverse)

lemma AES_encrypt_example: "AES_encrypt (js ''k'') [1, 2, 3] = [107, 107, 115]"
  by code_simp

lemma TextEncoder_encode_example:
  "TextEncoder_encode [0x41, 0xD83D, 0xDE00, 0x20AC, 0xD800, 0xE9]
     = [65, 240, 159, 152, 128, 226, 130, 172, 239, 191, 189, 195, 169]"
  by (simp add: utf8_scalar_def is_lead_def is_trail_def)

text \<open>
  C8. Applying the XOR strategy's \<open>encrypt\<close> twice with the same secret gives back the
  bytes it started from, for every secret and every slice, and \<open>decrypt\<close> is the same
  operation as \<open>encrypt\<close>.
\<close>

theorem XOR_encrypt_involution:
  "XOR_encrypt s (XOR_encrypt s d) = d \<and> XOR_decrypt s d = XOR_encrypt s d"
  by (simp add: XOR_decrypt_def XOR_encrypt_imap imap_imap imap_ident xor.assoc)

text \<open>
  C4. The AES-like strategy's \<open>decrypt\<close> undoes its \<open>encrypt\<close> with the same secret, for
  every secret and every slice: in particular for the slices of 0 to 256 bytes and the
  secrets of 1 to 64 characters.
\<close>

theorem AES_decrypt_encrypt:
  "AES_decrypt s (AES_encrypt s d) = d"
  by (simp add: AES_encrypt_def AES_decrypt_def AES_encrypt_rounds_unfold
      AES_decrypt_rounds_unfold AES_round_inverse)

text \<open>
  C9. The Caesar strategy depends on its secret through the hash of the secret modulo 26
  only: two secrets whose hashes are equal modulo 26 encrypt every slice to the same
  bytes.
\<close>

theorem Caesar_key_collision:
  assumes "Hash_secret (JSString s1) = Inr h1"
      and "Hash_secret (JSString s2) = Inr h2"
      and "h1 mod 26 = h2 mod 26"
  shows "Caesar_encrypt s1 d = Caesar_encrypt s2 d"
proof -
  from assms have "Caesar_shift s1 = Caesar_shift s2"
    by (auto simp: Hash_secret_def Caesar_shift_mod)
  then show ?thesis
    by (simp add: Caesar_encrypt_imap)
qed

lemma hash_string_a: "hash_string (js ''a'') = 97"
  by (simp add: hash_string_def js_def hash_step_def js_or0_def js_shl_def to_int32_def)

lemma hash_string_brace: "hash_string (js ''{'') = 123"
  by (simp add: hash_string_def js_def hash_step_def js_or0_def js_shl_def to_int32_def)

theorem Caesar_key_collision_witness:
  "js ''a'' \<noteq> js ''{''
   \<and> Hash_secret (JSString (js ''a'')) = Inr 97
   \<and> Hash_secret (JSString (js ''{'')) = Inr 123
   \<and> (97 :: int) mod 26 = 123 mod 26
   \<and> Caesar_encrypt (js ''a'') [1, 255, 3] = Caesar_encrypt (js ''{'') [1, 255, 3]"
proof -
  have a: "Hash_secret (JSString (js ''a'')) = Inr 97"
    by (simp add: Hash_secret_def hash_string_a)
  have b: "Hash_secret (JSString (js ''{'')) = Inr 123"
    by (simp add: Hash_secret_def hash_string_brace)
  have c: "(97 :: int) mod 26 = 123 mod 26" by simp
  have "js ''a'' \<noteq> js ''{''" by (simp add: js_def)
  with a b c Caesar_key_collision [OF a b c, of "[1, 255, 3]"] show ?thesis by simp
qed

section \<open>The header, the registry and the dispatcher\<close>

lemma digits4:
  fixes n k :: nat
  assumes "n div k div k div k < k"
  shows "(n div k div k div k mod k) * (k * k * k) + (n div k div k mod k) * (k * k)
         + (n div k mod k) * k + n mod k = n"
proof -
  define a where "a = n div k"
  define b where "b = a div k"
  define c where "c = b div k"
  have c: "c mod k = c" using assms by (simp add: a_def b_def c_def)
  have nb: "b = c * k + b mod k" by (simp add: c_def)
  have na: "a = b * k + a mod k" by (simp add: b_def)
  have nn: "n = a * k + n mod k" by (simp add: a_def)
  have "c * (k * k * k) + (b mod k) * (k * k) + (a mod k) * k + n mod k
        = ((c * k + b mod k) * k + a mod k) * k + n mod k"
    by (simp add: algebra_simps)
  also have "\<dots> = n" using nb na nn by simp
  finally show ?thesis
    using c by (simp add: a_def b_def c_def)
qed

lemma be32_roundtrip:
  assumes "n < 2 ^ 32"
  shows "unat (of_nat (n div 2 ^ 24) :: byte) * 2 ^ 24
         + unat (of_nat (n div 2 ^ 16) :: byte) * 2 ^ 16
         + unat (of_nat (n div 2 ^ 8) :: byte) * 2 ^ 8 + unat (of_nat n :: byte) = n"
proof -
  have d16: "n div 256 div 256 = n div 65536" by (simp add: div_mult2_eq [symmetric])
  have d24: "n div 256 div 256 div 256 = n div 16777216" by (simp add: div_mult2_eq [symmetric])
  have "n div 16777216 < 256" using assms by simp
  then have lt: "n div 256 div 256 div 256 < 256" by (simp only: d24)
  have d24': "n div 65536 div 256 = n div 16777216" by (simp add: div_mult2_eq [symmetric])
  have small: "n div 16777216 mod 256 = n div 16777216" using assms by simp
  from digits4 [OF lt] show ?thesis
    by (simp add: unat_of_nat d16 d24' small)
qed

lemma names_distinct:
  "js ''xor'' \<noteq> js ''aes-like''" "js ''xor'' \<noteq> js ''caesar''"
  "js ''aes-like'' \<noteq> js ''caesar''" "js ''aes-like'' \<noteq> js ''xor''"
  "js ''caesar'' \<noteq> js ''xor''" "js ''caesar'' \<noteq> js ''aes-like''"
  by (simp_all add: js_def)

lemma getEncryptionMethodCode_eq:
  "getEncryptionMethodCode m =
     (if m = Some (js ''xor'') then 1 else if m = Some (js ''aes-like'') then 2
      else if m = Some (js ''caesar'') then 3 else 0)"
  by (auto simp: getEncryptionMethodCode_def AvailableMethods_def)

lemma getEncryptionMethodName_eq:
  "getEncryptionMethodName c =
     (if c = 1 then Some (js ''xor'') else if c = 2 then Some (js ''aes-like'')
      else if c = 3 then Some (js ''caesar'') else None)"
  by (simp add: getEncryptionMethodName_def AvailableMethods_def)

lemma EncryptionMethod_encrypt_fresh:
  "EncryptionMethod_encrypt s 6 (h @ [b]) (length h) m = h @ [encrypt_bytes s m b]"
  by (simp add: EncryptionMethod_encrypt_def encrypt_bytes_def split: option.splits)

lemma EncryptionMethod_decrypt_fresh:
  "EncryptionMethod_decrypt s 6 (h @ [b]) (length h) c = h @ [decrypt_bytes s c b]"
  by (simp add: EncryptionMethod_decrypt_def decrypt_bytes_def split: option.splits)

lemma strategy_encrypt_length [simp]: "length (strategy_encrypt st s d) = length d"
  by (cases st)
    (simp_all add: XOR_encrypt_imap Caesar_encrypt_imap AES_encrypt_def AES_encrypt_rounds_unfold
      AES_encrypt_round_imap)

lemma strategy_decrypt_length [simp]: "length (strategy_decrypt st s d) = length d"
  by (cases st)
    (simp_all add: XOR_decrypt_def XOR_encrypt_imap Caesar_decrypt_imap AES_decrypt_def
      AES_decrypt_rounds_unfold AES_decrypt_round_imap)

lemma strategy_inverse: "strategy_decrypt st s (strategy_encrypt st s d) = d"
  by (cases st) (simp_all add: XOR_inverse AES_inverse Caesar_inverse)

lemma strategy_decrypt_take:
  "take n (strategy_decrypt st s d) = strategy_decrypt st s (take n d)"
  by (cases st)
    (simp_all add: XOR_decrypt_def XOR_encrypt_imap Caesar_decrypt_imap AES_decrypt_def
      AES_decrypt_rounds_unfold AES_decrypt_round_imap imap_take)

lemma strategy_encrypt_Nil [simp]: "strategy_encrypt st s [] = []"
proof -
  have "length (strategy_encrypt st s []) = 0" by simp
  then show ?thesis by (simp only: length_0_conv)
qed

lemma strategy_decrypt_Nil [simp]: "strategy_decrypt st s [] = []"
proof -
  have "length (strategy_decrypt st s []) = 0" by simp
  then show ?thesis by (simp only: length_0_conv)
qed

lemma encrypt_bytes_length [simp]: "length (encrypt_bytes s m b) = length b"
  by (auto simp: encrypt_bytes_def split: option.splits)

lemma decrypt_bytes_length [simp]: "length (decrypt_bytes s c b) = length b"
  by (auto simp: decrypt_bytes_def split: option.splits)

lemma encrypt_bytes_take [simp]: "take 6 (encrypt_bytes s m b) = take 6 b"
  by (cases "6 \<le> length b") (auto simp: encrypt_bytes_def split: option.splits)

lemma decrypt_bytes_take [simp]: "take 6 (decrypt_bytes s c b) = take 6 b"
  by (cases "6 \<le> length b") (auto simp: decrypt_bytes_def split: option.splits)

lemma decrypt_bytes_nth: "i < 6 \<Longrightarrow> decrypt_bytes s c b ! i = b ! i"
  by (metis decrypt_bytes_take nth_take)

lemma header_length [simp]: "length (header c n) = 6"
  by (simp add: header_def)

lemma pack_header_writes:
  "take 6 ((replicate (n + 6) (0::byte))[0 := a0, 1 := a1, 2 := a2, 3 := a3, 4 := a4, 5 := a5])
     = [a0, a1, a2, a3, a4, a5]"
proof -
  have "replicate (n + 6) (0::byte) = [0, 0, 0, 0, 0, 0] @ replicate n 0"
    by (simp add: replicate_add [symmetric] numeral_eq_Suc add.commute
          del: replicate_Suc replicate.simps)
       (simp add: replicate_append_same)
  then show ?thesis
    by (simp add: numeral_eq_Suc)
qed

section \<open>The codec\<close>

lemma pack_eq:
  assumes "encode_stringified (JSON_stringify P v) = Some sb"
  shows "pack P p v h =
           (h @ [case configured p of
                   None \<Rightarrow> header (getEncryptionMethodCode (encryptionMethod p)) (length sb) @ sb
                 | Some (s, m) \<Rightarrow>
                     encrypt_bytes s (Some m)
                       (header (getEncryptionMethodCode (encryptionMethod p)) (length sb) @ sb)],
            Inr (length h))"
proof -
  have "take 6 ((replicate (length sb + 6) (0::byte))
          [0 := 1, Suc 0 := c1, 2 := c2, 3 := c3, 4 := c4, 5 := c5]) = [1, c1, c2, c3, c4, c5]"
    for c1 c2 c3 c4 c5 :: byte
    using pack_header_writes [of "length sb" 1 c1 c2 c3 c4 c5] by simp
  then show ?thesis
    using assms
    by (simp add: pack_def ArrayBuffer_new_def setUint8_def setUint32_def Uint8Array_set_def
        EncryptionMethod_encrypt_fresh header_def split: option.splits)
qed

lemma unat_byte_eq_1: "(unat (x :: byte) = Suc 0) = (x = 1)"
  by (simp add: word_unat_eq_iff)

lemma Suc0_le_length: "(Suc 0 \<le> length b) = (b \<noteq> [])"
  by (cases b) simp_all

lemma unpack_eq:
  "unpack P p h a =
     (let b = h ! a in
      if length b = 0 then (h @ [b], Inl (UnpackError RangeError))
      else if b ! 0 \<noteq> 1 then (h @ [b], Inl FormatVersionMismatch)
      else if length b < 2 then (h @ [b], Inl (UnpackError RangeError))
      else (case configured p of
              None \<Rightarrow> (h @ [b], read_payload P b)
            | Some (s, m) \<Rightarrow>
                if getEncryptionMethodName (unat (b ! 1)) \<noteq> Some m
                then (h @ [b], Inl MethodMismatch)
                else (h @ [decrypt_bytes s (unat (b ! 1)) b],
                      read_payload P (decrypt_bytes s (unat (b ! 1)) b))))"
  by (auto simp: unpack_def ArrayBuffer_slice0_def getUint8_def check_method_def Let_def
      EncryptionMethod_decrypt_fresh unat_byte_eq_1 Suc0_le_length split: option.splits)

lemma getUint32_Inr_length: "getUint32 b 2 = Inr L \<Longrightarrow> 6 \<le> length b"
  by (simp add: getUint32_def split: if_splits)

lemma getUint32_take: "6 \<le> n \<Longrightarrow> 6 \<le> length b \<Longrightarrow> getUint32 (take n b) 2 = getUint32 b 2"
  by (simp add: getUint32_def)

lemma getUint32_decrypt_bytes: "getUint32 (decrypt_bytes s c b) 2 = getUint32 b 2"
proof (cases "6 \<le> length b")
  case True
  then show ?thesis
    by (simp add: getUint32_def decrypt_bytes_nth)
next
  case False
  then show ?thesis by (simp add: getUint32_def)
qed

lemma read_payload_trim:
  assumes "getUint32 b 2 = Inr L" and "L \<le> length b - 6"
  shows "read_payload P (take (6 + L) b) = read_payload P b"
proof -
  have len: "6 \<le> length b" using assms(1) by (rule getUint32_Inr_length)
  have g: "getUint32 (take (6 + L) b) 2 = Inr L"
    using getUint32_take [of "6 + L" b] len assms(1) by simp
  have "take L (drop 6 (take (6 + L) b)) = take L (drop 6 b)"
    by (simp add: drop_take)
  then show ?thesis
    using assms len g by (simp add: read_payload_def min_def)
qed

lemma decrypt_bytes_take_more:
  assumes "6 \<le> n" and "6 \<le> length b"
  shows "take n (decrypt_bytes s c b) = decrypt_bytes s c (take n b)"
proof (cases "find (\<lambda>e. code e = c) AvailableMethods")
  case None
  then show ?thesis by (simp add: decrypt_bytes_def)
next
  case (Some e)
  have "take n (take 6 b @ strategy_decrypt (instance' e) s (drop 6 b))
        = take 6 b @ take (n - 6) (strategy_decrypt (instance' e) s (drop 6 b))"
    using assms by (simp add: min_def)
  also have "\<dots> = take 6 b @ strategy_decrypt (instance' e) s (take (n - 6) (drop 6 b))"
    by (simp only: strategy_decrypt_take)
  also have "\<dots> = take 6 (take n b) @ strategy_decrypt (instance' e) s (drop 6 (take n b))"
    using assms by (simp add: drop_take min_def)
  finally show ?thesis
    using Some by (simp add: decrypt_bytes_def)
qed

lemma unpack_long:
  assumes "2 \<le> length (h ! a)"
  shows "snd (unpack P p h a) =
     (if h ! a ! 0 \<noteq> 1 then Inl FormatVersionMismatch
      else (case configured p of
              None \<Rightarrow> read_payload P (h ! a)
            | Some (s, m) \<Rightarrow>
                if getEncryptionMethodName (unat (h ! a ! 1)) \<noteq> Some m then Inl MethodMismatch
                else read_payload P (decrypt_bytes s (unat (h ! a ! 1)) (h ! a))))"
proof -
  have "length (h ! a) \<noteq> 0" and "\<not> length (h ! a) < 2" using assms by auto
  then show ?thesis
    by (simp add: unpack_eq Let_def split: option.splits)
qed

lemma unpack_trim:
  assumes "getUint32 (h ! a) 2 = Inr L" and "L \<le> length (h ! a) - 6"
  shows "snd (unpack P p h a) = snd (unpack P p [take (6 + L) (h ! a)] 0)"
proof -
  define b where "b = h ! a"
  define b' where "b' = take (6 + L) b"
  have len: "6 \<le> length b" using assms(1) unfolding b_def by (rule getUint32_Inr_length)
  have len': "length b' = 6 + L" using assms(2) len by (simp add: b'_def b_def)
  have n0: "b' ! 0 = b ! 0" and n1: "b' ! 1 = b ! 1" by (simp_all add: b'_def)
  have plain: "read_payload P b' = read_payload P b"
    unfolding b'_def using assms unfolding b_def by (rule read_payload_trim)
  have dec: "read_payload P (decrypt_bytes s c b') = read_payload P (decrypt_bytes s c b)" for s c
  proof -
    have "decrypt_bytes s c b' = take (6 + L) (decrypt_bytes s c b)"
      unfolding b'_def using len by (simp add: decrypt_bytes_take_more)
    moreover have "getUint32 (decrypt_bytes s c b) 2 = Inr L"
      using assms(1) by (simp add: getUint32_decrypt_bytes b_def)
    moreover have "L \<le> length (decrypt_bytes s c b) - 6"
      using assms(2) by (simp add: b_def)
    ultimately show ?thesis by (simp add: read_payload_trim)
  qed
  have l2: "2 \<le> length (h ! a)" using len by (simp add: b_def)
  have l2': "2 \<le> length ([b'] ! 0)" using len' by simp
  have "snd (unpack P p h a) = snd (unpack P p [b'] 0)"
    unfolding unpack_long [OF l2] unpack_long [OF l2']
    using n0 n1 plain dec by (simp add: b_def [symmetric] split: option.splits)
  then show ?thesis by (simp add: b'_def b_def)
qed

lemma configured_new:
  "configured \<lparr>secret = s, encryptionMethod = m\<rparr> =
     (case (s, m) of (Some k, Some n) \<Rightarrow> if k \<noteq> [] \<and> n \<noteq> [] then Some (k, n) else None
      | _ \<Rightarrow> None)"
  by (auto simp: configured_def truthy_def split: option.splits)

lemma names_nonempty: "js ''xor'' \<noteq> []" "js ''aes-like'' \<noteq> []" "js ''caesar'' \<noteq> []"
  by (simp_all add: js_def)

lemma encrypt_bytes_names:
  "encrypt_bytes k (Some (js ''xor'')) b = take 6 b @ XOR_encrypt k (drop 6 b)"
  "encrypt_bytes k (Some (js ''aes-like'')) b = take 6 b @ AES_encrypt k (drop 6 b)"
  "encrypt_bytes k (Some (js ''caesar'')) b = take 6 b @ Caesar_encrypt k (drop 6 b)"
  by (simp_all add: encrypt_bytes_def AvailableMethods_def names_distinct)

lemma decrypt_bytes_codes:
  "decrypt_bytes k (Suc 0) b = take 6 b @ XOR_decrypt k (drop 6 b)"
  "decrypt_bytes k 2 b = take 6 b @ AES_decrypt k (drop 6 b)"
  "decrypt_bytes k 3 b = take 6 b @ Caesar_decrypt k (drop 6 b)"
  by (simp_all add: decrypt_bytes_def AvailableMethods_def)

lemma registered_cases:
  assumes "m \<in> {js ''xor'', js ''aes-like'', js ''caesar''}"
  obtains "m = js ''xor''" | "m = js ''aes-like''" | "m = js ''caesar''"
  using assms by blast

lemma codec_inverse:
  assumes "m \<in> {js ''xor'', js ''aes-like'', js ''caesar''}" and "6 \<le> length b"
  shows "decrypt_bytes k (getEncryptionMethodCode (Some m)) (encrypt_bytes k (Some m) b) = b"
  using assms(1)
proof (cases rule: registered_cases)
  case 1
  then show ?thesis
    using assms(2)
    by (simp add: getEncryptionMethodCode_eq encrypt_bytes_names decrypt_bytes_codes XOR_inverse)
next
  case 2
  then show ?thesis
    using assms(2)
    by (simp add: getEncryptionMethodCode_eq names_distinct encrypt_bytes_names
        decrypt_bytes_codes AES_inverse)
next
  case 3
  then show ?thesis
    using assms(2)
    by (simp add: getEncryptionMethodCode_eq names_distinct encrypt_bytes_names
        decrypt_bytes_codes Caesar_inverse)
qed

lemma name_of_code:
  assumes "m \<in> {js ''xor'', js ''aes-like'', js ''caesar''}"
  shows "getEncryptionMethodName (getEncryptionMethodCode (Some m)) = Some m"
  using assms by (auto simp: getEncryptionMethodCode_eq getEncryptionMethodName_eq names_distinct)

lemma unat_code [simp]: "unat (of_nat (getEncryptionMethodCode m) :: byte) = getEncryptionMethodCode m"
  by (simp add: getEncryptionMethodCode_eq)

lemma read_payload_envelope:
  assumes "length sb < 2 ^ 32" and "JSON_parse P (TextDecoder_decode P sb) = Some v"
  shows "read_payload P (header c (length sb) @ sb) = Inr v"
proof -
  have "getUint32 (header c (length sb) @ sb) 2 = Inr (length sb)"
    using be32_roundtrip [OF assms(1)] by (simp add: getUint32_def header_def)
  then show ?thesis
    using assms(2) by (simp add: read_payload_def)
qed

lemma new_ok:
  assumes "(s = None \<and> m = None) \<or>
           (\<exists>k n. s = Some k \<and> k \<noteq> [] \<and> m = Some n
                  \<and> n \<in> {js ''xor'', js ''aes-like'', js ''caesar''})"
  shows "BinaryPack_new s m = Inr \<lparr>secret = s, encryptionMethod = m\<rparr>"
  using assms
  by (auto simp: BinaryPack_new_def truthy_def AvailableMethods_def names_nonempty)

lemma header_nth: "(header c n @ sb) ! 0 = 1" "(header c n @ sb) ! Suc 0 = of_nat c"
  by (simp_all add: header_def)

lemma unpack_envelope_plain:
  assumes "configured p = None"
      and "length sb < 2 ^ 32" and "JSON_parse P (TextDecoder_decode P sb) = Some v"
  shows "snd (unpack P p (h @ [header c (length sb) @ sb]) (length h)) = Inr v"
proof -
  have "2 \<le> length ((h @ [header c (length sb) @ sb]) ! length h)" by simp
  from unpack_long [OF this, where P = P and p = p] show ?thesis
    using assms by (simp add: read_payload_envelope header_nth)
qed

lemma unpack_envelope_transformed:
  assumes "configured p = Some (k, n)"
      and "n \<in> {js ''xor'', js ''aes-like'', js ''caesar''}"
      and "c = getEncryptionMethodCode (Some n)"
      and "length sb < 2 ^ 32" and "JSON_parse P (TextDecoder_decode P sb) = Some v"
  shows "snd (unpack P p (h @ [encrypt_bytes k (Some n) (header c (length sb) @ sb)]) (length h))
         = Inr v"
proof -
  define B where "B = encrypt_bytes k (Some n) (header c (length sb) @ sb)"
  have t6: "take 6 B = header c (length sb)" by (simp add: B_def)
  have "B ! 0 = take 6 B ! 0" and "B ! 1 = take 6 B ! 1" by simp_all
  then have B0: "B ! 0 = 1" and B1: "B ! 1 = of_nat c"
    unfolding t6 by (simp_all add: header_def)
  have dec: "decrypt_bytes k c B = header c (length sb) @ sb"
    using codec_inverse [OF assms(2), of "header c (length sb) @ sb" k] assms(3)
    by (simp add: B_def)
  have nm: "getEncryptionMethodName c = Some n"
    using name_of_code [OF assms(2)] assms(3) by simp
  have uc: "unat (of_nat c :: byte) = c" using assms(3) by simp
  have "2 \<le> length ((h @ [B]) ! length h)" by (simp add: B_def)
  from unpack_long [OF this, where P = P and p = p]
  have "snd (unpack P p (h @ [B]) (length h)) = Inr v"
    using assms(1,4,5) B0 B1 dec nm uc by (simp add: read_payload_envelope)
  then show ?thesis by (simp add: B_def)
qed

text \<open>
  C1. Round trip. Let \<open>v\<close> be a value that the platform serializes to a text \<open>t\<close> and
  reads back from the UTF-8 bytes of \<open>t\<close> (this is what makes \<open>v\<close> JSON-representable),
  with fewer than \<open>2 ^ 32\<close> bytes, the range of the length field. Then a packer
  constructed with no secret and no method, and a packer constructed with a non-empty
  secret and one of the methods \<open>xor\<close>, \<open>aes-like\<close> and \<open>caesar\<close>, is constructed without
  error, packs \<open>v\<close> into a buffer, and unpacks that buffer to \<open>v\<close>.
\<close>

theorem pack_unpack_roundtrip:
  assumes "JSON_stringify P v = Text t"
      and "JSON_parse P (TextDecoder_decode P (TextEncoder_encode t)) = Some v"
      and "length (TextEncoder_encode t) < 2 ^ 32"
      and "(s = None \<and> m = None) \<or>
           (\<exists>k n. s = Some k \<and> k \<noteq> [] \<and> m = Some n
                  \<and> n \<in> {js ''xor'', js ''aes-like'', js ''caesar''})"
  shows "\<exists>p h' buffer. BinaryPack_new s m = Inr p \<and> pack P p v h = (h', Inr buffer)
           \<and> snd (unpack P p h' buffer) = Inr v"
proof -
  define sb where "sb = TextEncoder_encode t"
  define p where "p = \<lparr>secret = s, encryptionMethod = m\<rparr>"
  have enc: "encode_stringified (JSON_stringify P v) = Some sb"
    using assms(1) by (simp add: encode_stringified_def sb_def)
  have new: "BinaryPack_new s m = Inr p"
    unfolding p_def using assms(4) by (rule new_ok)
  note pk = pack_eq [OF enc, where p = p and h = h]
  from assms(4) show ?thesis
  proof
    assume "s = None \<and> m = None"
    then have conf: "configured p = None" by (simp add: p_def configured_new)
    have "snd (unpack P p (h @ [header (getEncryptionMethodCode (encryptionMethod p)) (length sb) @ sb])
            (length h)) = Inr v"
      using conf assms(3,2) unfolding sb_def by (rule unpack_envelope_plain)
    with new pk conf show ?thesis by simp
  next
    assume "\<exists>k n. s = Some k \<and> k \<noteq> [] \<and> m = Some n
                  \<and> n \<in> {js ''xor'', js ''aes-like'', js ''caesar''}"
    then obtain k n where kn: "s = Some k" "k \<noteq> []" "m = Some n"
      and reg: "n \<in> {js ''xor'', js ''aes-like'', js ''caesar''}" by blast
    have "n \<noteq> []" using reg by (auto simp: js_def)
    with kn have conf: "configured p = Some (k, n)" by (simp add: p_def configured_new)
    have c: "getEncryptionMethodCode (encryptionMethod p) = getEncryptionMethodCode (Some n)"
      using kn by (simp add: p_def)
    have "snd (unpack P p (h @ [encrypt_bytes k (Some n)
              (header (getEncryptionMethodCode (encryptionMethod p)) (length sb) @ sb)])
            (length h)) = Inr v"
      using conf reg c assms(3,2) unfolding sb_def by (rule unpack_envelope_transformed)
    with new pk conf show ?thesis by simp
  qed
qed

lemma encode_true: "TextEncoder_encode (js ''true'') = [116, 114, 117, 101]"
  by (simp add: js_def utf8_scalar_def is_lead_def is_trail_def)

lemma boolean_true_text: "JSON_stringify boolean_platform True = Text (js ''true'')"
  by (simp add: boolean_platform_def)

lemma boolean_true_parse:
  "JSON_parse boolean_platform (TextDecoder_decode boolean_platform
     (TextEncoder_encode (js ''true''))) = Some True"
  by (simp add: encode_true) (simp add: boolean_platform_def js_def)

theorem pack_unpack_roundtrip_witness:
  "JSON_stringify boolean_platform True = Text (js ''true'')
   \<and> JSON_parse boolean_platform (TextDecoder_decode boolean_platform
         (TextEncoder_encode (js ''true''))) = Some True
   \<and> length (TextEncoder_encode (js ''true'')) < 2 ^ 32
   \<and> js ''k'' \<noteq> []
   \<and> (\<exists>p h' buffer. BinaryPack_new None None = Inr p
         \<and> pack boolean_platform p True [] = (h', Inr buffer)
         \<and> snd (unpack boolean_platform p h' buffer) = Inr True)
   \<and> (\<exists>p h' buffer. BinaryPack_new (Some (js ''k'')) (Some (js ''aes-like'')) = Inr p
         \<and> pack boolean_platform p True [] = (h', Inr buffer)
         \<and> snd (unpack boolean_platform p h' buffer) = Inr True)"
proof -
  have len: "length (TextEncoder_encode (js ''true'')) < 2 ^ 32"
    by (simp add: encode_true)
  have k: "js ''k'' \<noteq> []" by (simp add: js_def)
  have none: "(None = None \<and> None = None) \<or>
           (\<exists>k n. (None :: js_string option) = Some k \<and> k \<noteq> [] \<and> (None :: js_string option) = Some n
                  \<and> n \<in> {js ''xor'', js ''aes-like'', js ''caesar''})"
    by simp
  have aes: "(Some (js ''k'') = None \<and> Some (js ''aes-like'') = None) \<or>
           (\<exists>k n. Some (js ''k'') = Some k \<and> k \<noteq> [] \<and> Some (js ''aes-like'') = Some n
                  \<and> n \<in> {js ''xor'', js ''aes-like'', js ''caesar''})"
    using k by simp
  show ?thesis
    using boolean_true_text boolean_true_parse len k
      pack_unpack_roundtrip [OF boolean_true_text boolean_true_parse len none, of "[]"]
      pack_unpack_roundtrip [OF boolean_true_text boolean_true_parse len aes, of "[]"]
    by blast
qed

text \<open>
  C7. The constructor. A secret or a method is provided when it is a non-empty string
  (\<open>truthy\<close>, as the checks of the constructor read it). With exactly one of the two
  provided the constructor fails with \<open>ConfigError\<close>; with both provided and a method
  name that the registry does not have it fails with \<open>UnsupportedMethod\<close>; with a secret
  and a registered method, or with neither, it returns the packer.
\<close>

theorem BinaryPack_new_validation:
  "(truthy s \<and> \<not> truthy m \<longrightarrow> BinaryPack_new s m = Inl ConfigError)
   \<and> (\<not> truthy s \<and> truthy m \<longrightarrow> BinaryPack_new s m = Inl ConfigError)
   \<and> (truthy s \<and> truthy m \<and> m \<notin> {Some (js ''xor''), Some (js ''aes-like''), Some (js ''caesar'')}
        \<longrightarrow> BinaryPack_new s m = Inl UnsupportedMethod)
   \<and> (truthy s \<and> m \<in> {Some (js ''xor''), Some (js ''aes-like''), Some (js ''caesar'')}
        \<longrightarrow> BinaryPack_new s m = Inr \<lparr>secret = s, encryptionMethod = m\<rparr>)
   \<and> (\<not> truthy s \<and> \<not> truthy m
        \<longrightarrow> BinaryPack_new s m = Inr \<lparr>secret = s, encryptionMethod = m\<rparr>)"
  by (auto simp: BinaryPack_new_def truthy_def AvailableMethods_def names_nonempty
      split: option.splits)

theorem BinaryPack_new_validation_witness:
  "truthy (Some (js ''x'')) \<and> \<not> truthy None
   \<and> js ''md5'' \<notin> {js ''xor'', js ''aes-like'', js ''caesar''}
   \<and> BinaryPack_new (Some (js ''x'')) None = Inl ConfigError
   \<and> BinaryPack_new None (Some (js ''xor'')) = Inl ConfigError
   \<and> BinaryPack_new (Some (js ''x'')) (Some (js ''md5'')) = Inl UnsupportedMethod
   \<and> BinaryPack_new (Some (js ''x'')) (Some (js ''caesar''))
       = Inr \<lparr>secret = Some (js ''x''), encryptionMethod = Some (js ''caesar'')\<rparr>
   \<and> BinaryPack_new None None = Inr \<lparr>secret = None, encryptionMethod = None\<rparr>"
proof -
  have t: "truthy (Some (js ''x''))" "\<not> truthy None" "truthy (Some (js ''xor''))"
    "truthy (Some (js ''md5''))"
    by (simp_all add: truthy_def js_def)
  have md5: "js ''md5'' \<notin> {js ''xor'', js ''aes-like'', js ''caesar''}"
    by (simp add: js_def)
  show ?thesis
    using t md5
      BinaryPack_new_validation [of "Some (js ''x'')" None]
      BinaryPack_new_validation [of None "Some (js ''xor'')"]
      BinaryPack_new_validation [of "Some (js ''x'')" "Some (js ''md5'')"]
      BinaryPack_new_validation [of "Some (js ''x'')" "Some (js ''caesar'')"]
      BinaryPack_new_validation [of None None]
    by simp
qed

lemma new_Inr:
  assumes "BinaryPack_new s m = Inr p"
  shows "p = \<lparr>secret = s, encryptionMethod = m\<rparr>"
    and "truthy m \<Longrightarrow> m \<in> {Some (js ''xor''), Some (js ''aes-like''), Some (js ''caesar'')}"
    and "truthy s = truthy m"
  using assms
  by (auto simp: BinaryPack_new_def AvailableMethods_def split: if_splits option.splits)

lemma code_of_falsy: "\<not> truthy m \<Longrightarrow> getEncryptionMethodCode m = 0"
  by (auto simp: getEncryptionMethodCode_eq truthy_def names_nonempty)

lemma EncryptionMethod_encrypt_header:
  "take 6 (EncryptionMethod_encrypt k 6 g a x ! a) = take 6 (g ! a)"
proof (cases "a < length g")
  case True
  then have "EncryptionMethod_encrypt k 6 g a x ! a = encrypt_bytes k x (g ! a)"
    by (simp add: EncryptionMethod_encrypt_def encrypt_bytes_def split: option.splits)
  then show ?thesis by simp
next
  case False
  then have "g[a := y] = g" for y by (simp add: list_update_beyond)
  then show ?thesis
    by (simp add: EncryptionMethod_encrypt_def split: option.splits)
qed

lemma pack_buffer:
  assumes "encode_stringified (JSON_stringify P v) = Some sb"
  shows "\<exists>B. pack P p v h = (h @ [B], Inr (length h))
              \<and> length B = 6 + length sb
              \<and> take 6 B = header (getEncryptionMethodCode (encryptionMethod p)) (length sb)"
proof (cases "configured p")
  case None
  with pack_eq [OF assms, where p = p and h = h] show ?thesis by simp
next
  case (Some kn)
  obtain k n where "kn = (k, n)" by (cases kn)
  with Some pack_eq [OF assms, where p = p and h = h] show ?thesis by simp
qed

text \<open>
  C2. The wire format. For a packer that the constructor returned and a value whose text
  has \<open>n\<close> UTF-8 bytes, \<open>n < 2 ^ 32\<close>, \<open>pack\<close> returns a buffer of \<open>6 + n\<close> bytes; byte 0
  is 1; byte 1 is 0 without a method and the registry code of the method otherwise
  (1 for \<open>xor\<close>, 2 for \<open>aes-like\<close>, 3 for \<open>caesar\<close>); bytes 2 to 5 hold \<open>n\<close>, most
  significant byte first. These six bytes depend on the method and on \<open>n\<close> only, not on
  the secret, and the dispatcher's \<open>encrypt\<close> never changes the first six bytes of a buffer.
\<close>

theorem pack_wire_format:
  assumes "BinaryPack_new s m = Inr p"
      and "JSON_stringify P v = Text t"
      and "n = length (TextEncoder_encode t)"
      and "n < 2 ^ 32"
  shows "\<exists>h' buffer. pack P p v h = (h', Inr buffer)
           \<and> length (h' ! buffer) = 6 + n
           \<and> h' ! buffer ! 0 = 1
           \<and> h' ! buffer ! 1 =
               (if \<not> truthy m then 0 else if m = Some (js ''xor'') then 1
                else if m = Some (js ''aes-like'') then 2 else 3)
           \<and> h' ! buffer ! 2 = of_nat (n div 2 ^ 24)
           \<and> h' ! buffer ! 3 = of_nat (n div 2 ^ 16)
           \<and> h' ! buffer ! 4 = of_nat (n div 2 ^ 8)
           \<and> h' ! buffer ! 5 = of_nat n
           \<and> getUint32 (h' ! buffer) 2 = Inr n
           \<and> take 6 (h' ! buffer) = header (getEncryptionMethodCode m) n
           \<and> (\<forall>k g a x. take 6 (EncryptionMethod_encrypt k 6 g a x ! a) = take 6 (g ! a))"
proof -
  define sb where "sb = TextEncoder_encode t"
  have enc: "encode_stringified (JSON_stringify P v) = Some sb"
    using assms(2) by (simp add: encode_stringified_def sb_def)
  have pm: "encryptionMethod p = m" using new_Inr(1) [OF assms(1)] by simp
  from pack_buffer [OF enc, of p h] obtain B where
    pk: "pack P p v h = (h @ [B], Inr (length h))" and
    len: "length B = 6 + n" and
    hd: "take 6 B = header (getEncryptionMethodCode m) n"
    using assms(3) pm by (auto simp: sb_def)
  have nth: "B ! i = header (getEncryptionMethodCode m) n ! i" if "i < 6" for i
    using that hd by (metis nth_take)
  have b0: "B ! 0 = 1" using nth [of 0] by (simp add: header_def)
  have b1: "B ! 1 = of_nat (getEncryptionMethodCode m)" using nth [of 1] by (simp add: header_def)
  have b2: "B ! 2 = of_nat (n div 2 ^ 24)" using nth [of 2] by (simp add: header_def)
  have b3: "B ! 3 = of_nat (n div 2 ^ 16)" using nth [of 3] by (simp add: header_def)
  have b4: "B ! 4 = of_nat (n div 2 ^ 8)" using nth [of 4] by (simp add: header_def)
  have b5: "B ! 5 = of_nat n" using nth [of 5] by (simp add: header_def)
  have code: "(of_nat (getEncryptionMethodCode m) :: byte) =
               (if \<not> truthy m then 0 else if m = Some (js ''xor'') then 1
                else if m = Some (js ''aes-like'') then 2 else 3)"
  proof (cases "truthy m")
    case True
    from new_Inr(2) [OF assms(1) True] show ?thesis
      using True by (auto simp: getEncryptionMethodCode_eq names_distinct)
  next
    case False
    then show ?thesis by (simp add: code_of_falsy)
  qed
  have g: "getUint32 B 2 = Inr n"
    using len b2 b3 b4 b5 be32_roundtrip [OF assms(4)] by (simp add: getUint32_def)
  show ?thesis
    using pk len b0 b1 b2 b3 b4 b5 code g hd EncryptionMethod_encrypt_header by simp
qed

theorem pack_wire_format_witness:
  "BinaryPack_new (Some (js ''k'')) (Some (js ''aes-like''))
     = Inr \<lparr>secret = Some (js ''k''), encryptionMethod = Some (js ''aes-like'')\<rparr>
   \<and> JSON_stringify boolean_platform True = Text (js ''true'')
   \<and> (4 :: nat) = length (TextEncoder_encode (js ''true''))
   \<and> (4 :: nat) < 2 ^ 32
   \<and> (\<exists>h' buffer.
         pack boolean_platform
           \<lparr>secret = Some (js ''k''), encryptionMethod = Some (js ''aes-like'')\<rparr> True []
           = (h', Inr buffer)
         \<and> length (h' ! buffer) = 10
         \<and> take 6 (h' ! buffer) = [1, 2, 0, 0, 0, 4]
         \<and> getUint32 (h' ! buffer) 2 = Inr 4)"
proof -
  have new: "BinaryPack_new (Some (js ''k'')) (Some (js ''aes-like''))
     = Inr \<lparr>secret = Some (js ''k''), encryptionMethod = Some (js ''aes-like'')\<rparr>"
    by (rule new_ok) (simp add: js_def)
  have n: "(4 :: nat) = length (TextEncoder_encode (js ''true''))"
    by (simp add: encode_true)
  have lt: "(4 :: nat) < 2 ^ 32" by simp
  have c: "getEncryptionMethodCode (Some (js ''aes-like'')) = 2"
    by (simp add: getEncryptionMethodCode_eq names_distinct)
  from pack_wire_format [OF new boolean_true_text n lt, of "[]"]
  obtain h' buffer where
    "pack boolean_platform
       \<lparr>secret = Some (js ''k''), encryptionMethod = Some (js ''aes-like'')\<rparr> True []
       = (h', Inr buffer)"
    "length (h' ! buffer) = 6 + 4"
    "take 6 (h' ! buffer) = header (getEncryptionMethodCode (Some (js ''aes-like''))) 4"
    "getUint32 (h' ! buffer) 2 = Inr 4"
    by blast
  then have "\<exists>h' buffer.
         pack boolean_platform
           \<lparr>secret = Some (js ''k''), encryptionMethod = Some (js ''aes-like'')\<rparr> True []
           = (h', Inr buffer)
         \<and> length (h' ! buffer) = 10
         \<and> take 6 (h' ! buffer) = [1, 2, 0, 0, 0, 4]
         \<and> getUint32 (h' ! buffer) 2 = Inr 4"
    by (simp add: c header_def)
  with new boolean_true_text n lt show ?thesis by blast
qed

lemma read_payload_InvalidLength:
  "(read_payload P b = Inl InvalidLength) = (\<exists>L. getUint32 b 2 = Inr L \<and> length b - 6 < L)"
  by (auto simp: read_payload_def Let_def split: sum.splits option.splits if_splits)

lemma read_payload_not_checks:
  "read_payload P b \<noteq> Inl FormatVersionMismatch" "read_payload P b \<noteq> Inl MethodMismatch"
  by (auto simp: read_payload_def Let_def split: sum.splits option.splits if_splits)

lemma read_payload_decrypt_InvalidLength:
  "(read_payload P (decrypt_bytes s c b) = Inl InvalidLength)
     = (\<exists>L. getUint32 b 2 = Inr L \<and> length b - 6 < L)"
  by (simp add: read_payload_InvalidLength getUint32_decrypt_bytes)

lemma unpack_short:
  assumes "length (h ! a) < 2"
  shows "snd (unpack P p h a) =
           (if h ! a \<noteq> [] \<and> h ! a ! 0 \<noteq> 1 then Inl FormatVersionMismatch
            else Inl (UnpackError RangeError))"
  using assms by (auto simp: unpack_eq Let_def)

lemma getUint32_short: "length b < 2 \<Longrightarrow> getUint32 b 2 = Inl RangeError"
  by (simp add: getUint32_def)

text \<open>
  C3. The checks of \<open>unpack\<close>, in order, for a buffer \<open>b\<close> and the result \<open>r\<close>. A first
  byte other than 1 gives \<open>FormatVersionMismatch\<close>, whatever the rest. With the version
  right and a packer that has a secret and a method, a stored code whose name in the
  registry is not the packer's method (code 0 has no name) gives \<open>MethodMismatch\<close>,
  whatever the length field. With the version right and the method check passed or not
  applicable, a stored length above the buffer length minus 6 gives \<open>InvalidLength\<close>.
  Conversely each of the three errors is reported only when its check fails and the
  checks before it pass; \<open>MethodMismatch\<close> only for a packer with a secret and a method.
\<close>

theorem unpack_check_order:
  assumes "b = h ! a" and "r = snd (unpack P p h a)"
  shows "(b \<noteq> [] \<and> b ! 0 \<noteq> 1 \<longrightarrow> r = Inl FormatVersionMismatch)
       \<and> (2 \<le> length b \<and> b ! 0 = 1 \<and> configured p = Some (k, n)
            \<and> getEncryptionMethodName (unat (b ! 1)) \<noteq> Some n \<longrightarrow> r = Inl MethodMismatch)
       \<and> (2 \<le> length b \<and> b ! 0 = 1 \<and> configured p = Some (k, n) \<and> b ! 1 = 0
            \<longrightarrow> r = Inl MethodMismatch)
       \<and> (getUint32 b 2 = Inr L \<and> b ! 0 = 1
            \<and> (configured p = None
                \<or> configured p = Some (k, n) \<and> getEncryptionMethodName (unat (b ! 1)) = Some n)
            \<and> length b - 6 < L \<longrightarrow> r = Inl InvalidLength)
       \<and> (r = Inl FormatVersionMismatch \<longrightarrow> b \<noteq> [] \<and> b ! 0 \<noteq> 1)
       \<and> (r = Inl MethodMismatch \<longrightarrow>
            2 \<le> length b \<and> b ! 0 = 1
            \<and> (\<exists>k n. configured p = Some (k, n)
                       \<and> getEncryptionMethodName (unat (b ! 1)) \<noteq> Some n))
       \<and> (r = Inl InvalidLength \<longrightarrow>
            b ! 0 = 1 \<and> (\<exists>L. getUint32 b 2 = Inr L \<and> length b - 6 < L)
            \<and> (\<forall>k n. configured p = Some (k, n)
                       \<longrightarrow> getEncryptionMethodName (unat (b ! 1)) = Some n))"
proof (cases "2 \<le> length b")
  case True
  then have l: "2 \<le> length (h ! a)" using assms(1) by simp
  have ne: "b \<noteq> []" using True by auto
  have code0: "getEncryptionMethodName 0 = None" by (simp add: getEncryptionMethodName_eq)
  note r = unpack_long [OF l, where P = P and p = p, folded assms]
  have c1: "b \<noteq> [] \<and> b ! 0 \<noteq> 1 \<longrightarrow> r = Inl FormatVersionMismatch"
    by (simp add: r)
  have c2: "2 \<le> length b \<and> b ! 0 = 1 \<and> configured p = Some (k, n)
            \<and> getEncryptionMethodName (unat (b ! 1)) \<noteq> Some n \<longrightarrow> r = Inl MethodMismatch"
    by (simp add: r)
  have c3: "2 \<le> length b \<and> b ! 0 = 1 \<and> configured p = Some (k, n) \<and> b ! 1 = 0
            \<longrightarrow> r = Inl MethodMismatch"
    by (simp add: r code0)
  have c4: "getUint32 b 2 = Inr L \<and> b ! 0 = 1
            \<and> (configured p = None
                \<or> configured p = Some (k, n) \<and> getEncryptionMethodName (unat (b ! 1)) = Some n)
            \<and> length b - 6 < L \<longrightarrow> r = Inl InvalidLength"
    by (auto simp: r read_payload_InvalidLength getUint32_decrypt_bytes)
  have c5: "r = Inl FormatVersionMismatch \<longrightarrow> b \<noteq> [] \<and> b ! 0 \<noteq> 1"
    using ne by (auto simp: r read_payload_not_checks split: option.splits if_splits)
  have c6: "r = Inl MethodMismatch \<longrightarrow>
            2 \<le> length b \<and> b ! 0 = 1
            \<and> (\<exists>k n. configured p = Some (k, n)
                       \<and> getEncryptionMethodName (unat (b ! 1)) \<noteq> Some n)"
    using True by (auto simp: r read_payload_not_checks split: option.splits if_splits)
  have c7: "r = Inl InvalidLength \<longrightarrow>
            b ! 0 = 1 \<and> (\<exists>L. getUint32 b 2 = Inr L \<and> length b - 6 < L)
            \<and> (\<forall>k n. configured p = Some (k, n)
                       \<longrightarrow> getEncryptionMethodName (unat (b ! 1)) = Some n)"
    by (auto simp: r read_payload_InvalidLength getUint32_decrypt_bytes
        split: option.splits if_splits)
  from c1 c2 c3 c4 c5 c6 c7 show ?thesis by blast
next
  case False
  then have l: "length (h ! a) < 2" using assms(1) by simp
  have g: "getUint32 b 2 = Inl RangeError" using False by (simp add: getUint32_short)
  note r = unpack_short [OF l, where P = P and p = p, folded assms]
  show ?thesis
    using False g by (simp add: r)
qed

lemma configured_caesar:
  "configured \<lparr>secret = Some (js ''k''), encryptionMethod = Some (js ''caesar'')\<rparr>
     = Some (js ''k'', js ''caesar'')"
  by (simp add: configured_new js_def)

lemma configured_none: "configured \<lparr>secret = None, encryptionMethod = None\<rparr> = None"
  by (simp add: configured_new)

theorem unpack_check_order_witness:
  "configured \<lparr>secret = Some (js ''k''), encryptionMethod = Some (js ''caesar'')\<rparr>
     = Some (js ''k'', js ''caesar'')
   \<and> getEncryptionMethodName (unat (1 :: byte)) \<noteq> Some (js ''caesar'')
   \<and> getUint32 [1, 0, 0, 0, 0, 9] 2 = Inr 9
   \<and> snd (unpack boolean_platform \<lparr>secret = None, encryptionMethod = None\<rparr>
            [[2, 0, 0, 0, 0, 0]] 0) = Inl FormatVersionMismatch
   \<and> snd (unpack boolean_platform
            \<lparr>secret = Some (js ''k''), encryptionMethod = Some (js ''caesar'')\<rparr>
            [[2, 1, 0, 0, 0, 9]] 0) = Inl FormatVersionMismatch
   \<and> snd (unpack boolean_platform
            \<lparr>secret = Some (js ''k''), encryptionMethod = Some (js ''caesar'')\<rparr>
            [[1, 1, 0, 0, 0, 9]] 0) = Inl MethodMismatch
   \<and> snd (unpack boolean_platform
            \<lparr>secret = Some (js ''k''), encryptionMethod = Some (js ''caesar'')\<rparr>
            [[1, 0, 0, 0, 0, 0]] 0) = Inl MethodMismatch
   \<and> snd (unpack boolean_platform \<lparr>secret = None, encryptionMethod = None\<rparr>
            [[1, 0, 0, 0, 0, 9]] 0) = Inl InvalidLength"
proof -
  have nm: "getEncryptionMethodName (unat (1 :: byte)) \<noteq> Some (js ''caesar'')"
    by (simp add: getEncryptionMethodName_eq names_distinct)
  have g: "getUint32 [1, 0, 0, 0, 0, 9] 2 = Inr 9"
    by (simp add: getUint32_def)
  show ?thesis
    using configured_caesar configured_none nm g
      unpack_check_order [OF refl refl, where h = "[[2, 0, 0, 0, 0, 0]]" and a = 0
        and P = boolean_platform and p = "\<lparr>secret = None, encryptionMethod = None\<rparr>"]
      unpack_check_order [OF refl refl, where h = "[[2, 1, 0, 0, 0, 9]]" and a = 0
        and P = boolean_platform
        and p = "\<lparr>secret = Some (js ''k''), encryptionMethod = Some (js ''caesar'')\<rparr>"]
      unpack_check_order [OF refl refl, where h = "[[1, 1, 0, 0, 0, 9]]" and a = 0
        and P = boolean_platform and k = "js ''k''" and n = "js ''caesar''"
        and p = "\<lparr>secret = Some (js ''k''), encryptionMethod = Some (js ''caesar'')\<rparr>"]
      unpack_check_order [OF refl refl, where h = "[[1, 0, 0, 0, 0, 0]]" and a = 0
        and P = boolean_platform and k = "js ''k''" and n = "js ''caesar''"
        and p = "\<lparr>secret = Some (js ''k''), encryptionMethod = Some (js ''caesar'')\<rparr>"]
      unpack_check_order [OF refl refl, where h = "[[1, 0, 0, 0, 0, 9]]" and a = 0
        and P = boolean_platform and L = 9
        and p = "\<lparr>secret = None, encryptionMethod = None\<rparr>"]
    by simp
qed

lemma unpack_heap: "\<exists>x. fst (unpack P p h a) = h @ [x]"
  by (simp add: unpack_eq Let_def split: option.splits)

text \<open>
  C6. \<open>unpack\<close> leaves every buffer that existed before the call as it was, the caller's
  buffer among them, whether it returns a value or fails and whatever the packer: it
  allocates one buffer, the copy, and decrypts there.
\<close>

theorem unpack_preserves_buffers:
  "take (length h) (fst (unpack P p h a)) = h
   \<and> (a < length h \<longrightarrow> fst (unpack P p h a) ! a = h ! a)"
proof -
  obtain x where "fst (unpack P p h a) = h @ [x]" using unpack_heap by blast
  then show ?thesis by (simp add: nth_append)
qed

lemma dispatcher_changes_its_buffer:
  "EncryptionMethod_decrypt (js ''k'') 6 [[1, 1, 0, 0, 0, 1, 5]] 0 1 = [[1, 1, 0, 0, 0, 1, 110]]"
  by (simp add: EncryptionMethod_decrypt_def AvailableMethods_def XOR_decrypt_def XOR_encrypt_imap
      imap_def js_def utf8_scalar_def is_lead_def is_trail_def key_byte_def to_uint8_def)

theorem unpack_preserves_buffers_witness:
  "(0 :: nat) < length [[1, 1, 0, 0, 0, 1, 5 :: byte]]
   \<and> fst (unpack boolean_platform
             \<lparr>secret = Some (js ''k''), encryptionMethod = Some (js ''xor'')\<rparr>
             [[1, 1, 0, 0, 0, 1, 5]] 0) ! 0 = [1, 1, 0, 0, 0, 1, 5]"
  using unpack_preserves_buffers [where h = "[[1, 1, 0, 0, 0, 1, 5]]" and P = boolean_platform
      and p = "\<lparr>secret = Some (js ''k''), encryptionMethod = Some (js ''xor'')\<rparr>" and a = 0]
  by simp

lemma unpack_InvalidLength_only_if:
  assumes "snd (unpack P p h a) = Inl InvalidLength"
  shows "\<exists>L. getUint32 (h ! a) 2 = Inr L \<and> length (h ! a) - 6 < L"
proof (cases "2 \<le> length (h ! a)")
  case True
  from assms show ?thesis
    unfolding unpack_long [OF True]
    by (auto simp: read_payload_InvalidLength getUint32_decrypt_bytes
        split: option.splits if_splits)
next
  case False
  then have "length (h ! a) < 2" by simp
  from assms show ?thesis
    unfolding unpack_short [OF \<open>length (h ! a) < 2\<close>] by (simp split: if_splits)
qed

text \<open>
  C10. Trailing bytes. Let a buffer store the length \<open>L\<close> in its header, and let a second
  buffer agree with it on the first \<open>6 + L\<close> bytes, both at least that long (both pass
  the length check). Then \<open>unpack\<close> gives the same outcome on both, the same value or the
  same error, and the outcome is not \<open>InvalidLength\<close>: a stored length below the number
  of bytes after the header is accepted and the bytes beyond it have no influence, since
  every strategy's \<open>decrypt\<close> of a prefix is the prefix of its \<open>decrypt\<close>.
\<close>

theorem trailing_bytes_ignored:
  assumes "getUint32 (h1 ! a1) 2 = Inr L"
      and "L \<le> length (h1 ! a1) - 6"
      and "L \<le> length (h2 ! a2) - 6"
      and "take (6 + L) (h1 ! a1) = take (6 + L) (h2 ! a2)"
  shows "snd (unpack P p h1 a1) = snd (unpack P p h2 a2)
         \<and> snd (unpack P p h1 a1) \<noteq> Inl InvalidLength
         \<and> (\<forall>st k i d. take i (strategy_decrypt st k d) = strategy_decrypt st k (take i d))"
proof -
  have len1: "6 \<le> length (h1 ! a1)" using assms(1) by (rule getUint32_Inr_length)
  have "length (take (6 + L) (h1 ! a1)) = 6 + L" using len1 assms(2) by simp
  then have "length (take (6 + L) (h2 ! a2)) = 6 + L" using assms(4) by simp
  then have len2: "6 \<le> length (h2 ! a2)" by simp
  have "take 6 (take (6 + L) (h1 ! a1)) = take 6 (take (6 + L) (h2 ! a2))"
    using assms(4) by simp
  then have hd: "take 6 (h1 ! a1) = take 6 (h2 ! a2)" by (simp add: min_def)
  have "getUint32 (take 6 (h1 ! a1)) 2 = getUint32 (h1 ! a1) 2"
    using len1 by (simp add: getUint32_take)
  moreover have "getUint32 (take 6 (h2 ! a2)) 2 = getUint32 (h2 ! a2) 2"
    using len2 by (simp add: getUint32_take)
  ultimately have g2: "getUint32 (h2 ! a2) 2 = Inr L" using hd assms(1) by simp
  have "snd (unpack P p h1 a1) = snd (unpack P p [take (6 + L) (h1 ! a1)] 0)"
    using assms(1,2) by (rule unpack_trim)
  moreover have "snd (unpack P p h2 a2) = snd (unpack P p [take (6 + L) (h2 ! a2)] 0)"
    using g2 assms(3) by (rule unpack_trim)
  ultimately have eq: "snd (unpack P p h1 a1) = snd (unpack P p h2 a2)"
    using assms(4) by simp
  have "snd (unpack P p h1 a1) \<noteq> Inl InvalidLength"
  proof
    assume "snd (unpack P p h1 a1) = Inl InvalidLength"
    from unpack_InvalidLength_only_if [OF this]
    obtain L' where "getUint32 (h1 ! a1) 2 = Inr L'" and "length (h1 ! a1) - 6 < L'"
      by blast
    with assms(1,2) show False by simp
  qed
  with eq show ?thesis by (simp add: strategy_decrypt_take)
qed

theorem trailing_bytes_ignored_witness:
  "getUint32 ([[1, 1, 0, 0, 0, 4, 31, 25, 30, 14, 9, 9]] ! 0) 2 = Inr 4
   \<and> (4 :: nat) \<le> length ([[1, 1, 0, 0, 0, 4, 31, 25, 30, 14, 9, 9 :: byte]] ! 0) - 6
   \<and> (4 :: nat) \<le> length ([[1, 1, 0, 0, 0, 4, 31, 25, 30, 14 :: byte]] ! 0) - 6
   \<and> take (6 + 4) ([[1, 1, 0, 0, 0, 4, 31, 25, 30, 14, 9, 9 :: byte]] ! 0)
       = take (6 + 4) ([[1, 1, 0, 0, 0, 4, 31, 25, 30, 14]] ! 0)
   \<and> snd (unpack boolean_platform
            \<lparr>secret = Some (js ''k''), encryptionMethod = Some (js ''xor'')\<rparr>
            [[1, 1, 0, 0, 0, 4, 31, 25, 30, 14, 9, 9]] 0)
       = snd (unpack boolean_platform
            \<lparr>secret = Some (js ''k''), encryptionMethod = Some (js ''xor'')\<rparr>
            [[1, 1, 0, 0, 0, 4, 31, 25, 30, 14]] 0)
   \<and> snd (unpack boolean_platform
            \<lparr>secret = Some (js ''k''), encryptionMethod = Some (js ''xor'')\<rparr>
            [[1, 1, 0, 0, 0, 4, 31, 25, 30, 14, 9, 9]] 0) \<noteq> Inl InvalidLength"
proof -
  have g: "getUint32 ([[1, 1, 0, 0, 0, 4, 31, 25, 30, 14, 9, 9]] ! 0) 2 = Inr 4"
    by (simp add: getUint32_def)
  have l1: "(4 :: nat) \<le> length ([[1, 1, 0, 0, 0, 4, 31, 25, 30, 14, 9, 9 :: byte]] ! 0) - 6"
    by simp
  have l2: "(4 :: nat) \<le> length ([[1, 1, 0, 0, 0, 4, 31, 25, 30, 14 :: byte]] ! 0) - 6"
    by simp
  have t: "take (6 + 4) ([[1, 1, 0, 0, 0, 4, 31, 25, 30, 14, 9, 9 :: byte]] ! 0)
       = take (6 + 4) ([[1, 1, 0, 0, 0, 4, 31, 25, 30, 14]] ! 0)"
    by simp
  from trailing_bytes_ignored [OF g l1 l2 t, where P = boolean_platform
      and p = "\<lparr>secret = Some (js ''k''), encryptionMethod = Some (js ''xor'')\<rparr>"]
    g l1 l2 t
  show ?thesis by blast
qed

lemma xor_envelope_value:
  "snd (unpack boolean_platform
            \<lparr>secret = Some (js ''k''), encryptionMethod = Some (js ''xor'')\<rparr>
            [[1, 1, 0, 0, 0, 4, 31, 25, 30, 14, 9, 9]] 0) = Inr True"
  by (simp add: unpack_long configured_new getEncryptionMethodName_eq decrypt_bytes_codes
      XOR_decrypt_def XOR_encrypt_imap imap_def js_def utf8_scalar_def is_lead_def is_trail_def
      key_byte_def to_uint8_def read_payload_def getUint32_def boolean_platform_def upt_rec)

end
